theory Spec2Isabelle
  imports Main "HOL-Library.Word"
begin

unbundle bit_operations_syntax

section \<open>Data model\<close>

text \<open>
  The sketch \<^verbatim>\<open>launchpad_jtag_finder.ino\<close> runs on an MSP430G2553, where
  \<^verbatim>\<open>unsigned char\<close> is 8 bits wide, \<^verbatim>\<open>unsigned int\<close> 16 bits and
  \<^verbatim>\<open>unsigned long\<close> 32 bits.  Pin ordinals are loop counters that run from 0 to
  \<^verbatim>\<open>PINS\<close> and never overflow; they are natural numbers here.
\<close>

type_synonym u8 = "8 word"
type_synonym u16 = "16 word"
type_synonym u32 = "32 word"
type_synonym pin = nat

definition PINS :: nat where
  "PINS = 16"

text \<open>
  Modelled from the spec: the bit masks \<^verbatim>\<open>BIT0\<close> .. \<^verbatim>\<open>BIT7\<close> and the port
  registers come from the device header of the toolchain, which is not part of the
  repository.  The mask of bit \<open>n\<close> is \<open>2 ^ n\<close>; the spec's pin abstraction addresses one
  pin per mask.
\<close>

definition BIT0 :: u8 where "BIT0 = 0x01"
definition BIT1 :: u8 where "BIT1 = 0x02"
definition BIT2 :: u8 where "BIT2 = 0x04"
definition BIT3 :: u8 where "BIT3 = 0x08"
definition BIT4 :: u8 where "BIT4 = 0x10"
definition BIT5 :: u8 where "BIT5 = 0x20"
definition BIT6 :: u8 where "BIT6 = 0x40"
definition BIT7 :: u8 where "BIT7 = 0x80"

text \<open>The output-side registers of the two ports: direction, pull resistor enable, output latch.\<close>

record ports =
  P1DIR :: u8
  P1REN :: u8
  P1OUT :: u8
  P2DIR :: u8
  P2REN :: u8
  P2OUT :: u8

text \<open>
  Whatever is wired to the pins.  It sees the port registers after every register write
  (\<open>react\<close>) and determines what the input registers \<^verbatim>\<open>P1IN\<close> and \<^verbatim>\<open>P2IN\<close> read.
\<close>

record 't world =
  react :: "ports \<Rightarrow> 't \<Rightarrow> 't"
  port1_in :: "'t \<Rightarrow> u8"
  port2_in :: "'t \<Rightarrow> u8"

text \<open>
  One line of console output.  The finders print a candidate under test (verbose mode) or
  an accepted candidate with the captured word; everything else is fixed text.
\<close>

datatype line =
    Trying3 pin pin pin
  | Trying4 pin pin pin pin
  | TryingSwd pin pin
  | FoundJtagId pin pin pin pin u32
  | FoundBypass pin pin pin pin u32
  | FoundSwd pin pin u32
  | Text string

text \<open>
  The global variables of the sketch, the port registers, the state of the outside world
  and the console.  \<open>retval\<close> is the local variable of the finder that is running.  The
  role pins (\<^verbatim>\<open>tck\<close>, \<^verbatim>\<open>tms\<close>, \<^verbatim>\<open>tdo\<close>, \<^verbatim>\<open>tdi\<close>, \<^verbatim>\<open>swclk\<close>,
  \<^verbatim>\<open>swdio\<close>) and the counter \<^verbatim>\<open>j\<close> are loop variables: they are bound by the
  loops below.
\<close>

record 't mcu =
  ports :: ports
  target :: 't
  byte_val :: u8
  byte_prev :: u8
  toggle_count :: u8
  tc :: u8
  idval :: u32
  cnt1 :: int
  vflag :: u8
  retval :: u8
  console :: "line list"

section \<open>Pin abstraction\<close>

text \<open>A read-modify-write (or plain write) of one register; the outside world sees the result.\<close>

definition upd_P1DIR :: "'t world \<Rightarrow> (u8 \<Rightarrow> u8) \<Rightarrow> 't mcu \<Rightarrow> 't mcu" where
  "upd_P1DIR w f s =
     (let p = (ports s)\<lparr>P1DIR := f (P1DIR (ports s))\<rparr>
      in s\<lparr>ports := p, target := react w p (target s)\<rparr>)"

definition upd_P1REN :: "'t world \<Rightarrow> (u8 \<Rightarrow> u8) \<Rightarrow> 't mcu \<Rightarrow> 't mcu" where
  "upd_P1REN w f s =
     (let p = (ports s)\<lparr>P1REN := f (P1REN (ports s))\<rparr>
      in s\<lparr>ports := p, target := react w p (target s)\<rparr>)"

definition upd_P1OUT :: "'t world \<Rightarrow> (u8 \<Rightarrow> u8) \<Rightarrow> 't mcu \<Rightarrow> 't mcu" where
  "upd_P1OUT w f s =
     (let p = (ports s)\<lparr>P1OUT := f (P1OUT (ports s))\<rparr>
      in s\<lparr>ports := p, target := react w p (target s)\<rparr>)"

definition upd_P2DIR :: "'t world \<Rightarrow> (u8 \<Rightarrow> u8) \<Rightarrow> 't mcu \<Rightarrow> 't mcu" where
  "upd_P2DIR w f s =
     (let p = (ports s)\<lparr>P2DIR := f (P2DIR (ports s))\<rparr>
      in s\<lparr>ports := p, target := react w p (target s)\<rparr>)"

definition upd_P2REN :: "'t world \<Rightarrow> (u8 \<Rightarrow> u8) \<Rightarrow> 't mcu \<Rightarrow> 't mcu" where
  "upd_P2REN w f s =
     (let p = (ports s)\<lparr>P2REN := f (P2REN (ports s))\<rparr>
      in s\<lparr>ports := p, target := react w p (target s)\<rparr>)"

definition upd_P2OUT :: "'t world \<Rightarrow> (u8 \<Rightarrow> u8) \<Rightarrow> 't mcu \<Rightarrow> 't mcu" where
  "upd_P2OUT w f s =
     (let p = (ports s)\<lparr>P2OUT := f (P2OUT (ports s))\<rparr>
      in s\<lparr>ports := p, target := react w p (target s)\<rparr>)"

text \<open>\<^verbatim>\<open>set_all_pins_to_inputs\<close>, lines 104-114.  The third statement is \<^verbatim>\<open>P1OUT &= 0xF9\<close>.\<close>

definition set_all_pins_to_inputs :: "'t world \<Rightarrow> 't mcu \<Rightarrow> 't mcu" where
  "set_all_pins_to_inputs w s =
     (let s = upd_P1DIR w (\<lambda>v. v AND NOT 0xF9) s;
          s = upd_P1REN w (\<lambda>v. v OR 0xF9) s;
          s = upd_P1OUT w (\<lambda>v. v AND 0xF9) s;
          s = upd_P2DIR w (\<lambda>_. 0x00) s;
          s = upd_P2REN w (\<lambda>_. 0xFF) s
      in upd_P2OUT w (\<lambda>_. 0xFF) s)"

text \<open>One branch of \<^verbatim>\<open>set_pin_to_input\<close>: direction cleared, pull enabled, latch cleared.\<close>

definition input_P1 :: "'t world \<Rightarrow> u8 \<Rightarrow> 't mcu \<Rightarrow> 't mcu" where
  "input_P1 w b s =
     (let s = upd_P1DIR w (\<lambda>v. v AND NOT b) s;
          s = upd_P1REN w (\<lambda>v. v OR b) s
      in upd_P1OUT w (\<lambda>v. v AND NOT b) s)"

definition input_P2 :: "'t world \<Rightarrow> u8 \<Rightarrow> 't mcu \<Rightarrow> 't mcu" where
  "input_P2 w b s =
     (let s = upd_P2DIR w (\<lambda>v. v AND NOT b) s;
          s = upd_P2REN w (\<lambda>v. v OR b) s
      in upd_P2OUT w (\<lambda>v. v AND NOT b) s)"

text \<open>\<^verbatim>\<open>set_pin_to_input\<close>, lines 124-223.  The branches of pins 1 and 2 are commented out.\<close>

definition set_pin_to_input :: "'t world \<Rightarrow> pin \<Rightarrow> 't mcu \<Rightarrow> 't mcu" where
  "set_pin_to_input w pin s =
     (if pin = 0 then input_P1 w BIT0 s
      else if pin = 3 then input_P1 w BIT3 s
      else if pin = 4 then input_P1 w BIT4 s
      else if pin = 5 then input_P1 w BIT5 s
      else if pin = 6 then input_P1 w BIT6 s
      else if pin = 7 then input_P1 w BIT7 s
      else if pin = 8 then input_P2 w BIT0 s
      else if pin = 9 then input_P2 w BIT1 s
      else if pin = 10 then input_P2 w BIT2 s
      else if pin = 11 then input_P2 w BIT3 s
      else if pin = 12 then input_P2 w BIT4 s
      else if pin = 13 then input_P2 w BIT5 s
      else if pin = 14 then input_P2 w BIT6 s
      else if pin = 15 then input_P2 w BIT7 s
      else s)"

text \<open>One branch of \<^verbatim>\<open>set_pin_to_output\<close>: direction set, pull disabled, latch cleared.\<close>

definition output_P1 :: "'t world \<Rightarrow> u8 \<Rightarrow> 't mcu \<Rightarrow> 't mcu" where
  "output_P1 w b s =
     (let s = upd_P1DIR w (\<lambda>v. v OR b) s;
          s = upd_P1REN w (\<lambda>v. v AND NOT b) s
      in upd_P1OUT w (\<lambda>v. v AND NOT b) s)"

definition output_P2 :: "'t world \<Rightarrow> u8 \<Rightarrow> 't mcu \<Rightarrow> 't mcu" where
  "output_P2 w b s =
     (let s = upd_P2DIR w (\<lambda>v. v OR b) s;
          s = upd_P2REN w (\<lambda>v. v AND NOT b) s
      in upd_P2OUT w (\<lambda>v. v AND NOT b) s)"

text \<open>\<^verbatim>\<open>set_pin_to_output\<close>, lines 234-333.\<close>

definition set_pin_to_output :: "'t world \<Rightarrow> pin \<Rightarrow> 't mcu \<Rightarrow> 't mcu" where
  "set_pin_to_output w pin s =
     (if pin = 0 then output_P1 w BIT0 s
      else if pin = 3 then output_P1 w BIT3 s
      else if pin = 4 then output_P1 w BIT4 s
      else if pin = 5 then output_P1 w BIT5 s
      else if pin = 6 then output_P1 w BIT6 s
      else if pin = 7 then output_P1 w BIT7 s
      else if pin = 8 then output_P2 w BIT0 s
      else if pin = 9 then output_P2 w BIT1 s
      else if pin = 10 then output_P2 w BIT2 s
      else if pin = 11 then output_P2 w BIT3 s
      else if pin = 12 then output_P2 w BIT4 s
      else if pin = 13 then output_P2 w BIT5 s
      else if pin = 14 then output_P2 w BIT6 s
      else if pin = 15 then output_P2 w BIT7 s
      else s)"

text \<open>\<^verbatim>\<open>set_pin\<close>, lines 343-362.\<close>

definition set_pin :: "'t world \<Rightarrow> pin \<Rightarrow> 't mcu \<Rightarrow> 't mcu" where
  "set_pin w pin s =
     (if pin = 0 then upd_P1OUT w (\<lambda>v. v OR BIT0) s
      else if pin = 3 then upd_P1OUT w (\<lambda>v. v OR BIT3) s
      else if pin = 4 then upd_P1OUT w (\<lambda>v. v OR BIT4) s
      else if pin = 5 then upd_P1OUT w (\<lambda>v. v OR BIT5) s
      else if pin = 6 then upd_P1OUT w (\<lambda>v. v OR BIT6) s
      else if pin = 7 then upd_P1OUT w (\<lambda>v. v OR BIT7) s
      else if pin = 8 then upd_P2OUT w (\<lambda>v. v OR BIT0) s
      else if pin = 9 then upd_P2OUT w (\<lambda>v. v OR BIT1) s
      else if pin = 10 then upd_P2OUT w (\<lambda>v. v OR BIT2) s
      else if pin = 11 then upd_P2OUT w (\<lambda>v. v OR BIT3) s
      else if pin = 12 then upd_P2OUT w (\<lambda>v. v OR BIT4) s
      else if pin = 13 then upd_P2OUT w (\<lambda>v. v OR BIT5) s
      else if pin = 14 then upd_P2OUT w (\<lambda>v. v OR BIT6) s
      else if pin = 15 then upd_P2OUT w (\<lambda>v. v OR BIT7) s
      else s)"

text \<open>\<^verbatim>\<open>clr_pin\<close>, lines 372-391.\<close>

definition clr_pin :: "'t world \<Rightarrow> pin \<Rightarrow> 't mcu \<Rightarrow> 't mcu" where
  "clr_pin w pin s =
     (if pin = 0 then upd_P1OUT w (\<lambda>v. v AND NOT BIT0) s
      else if pin = 3 then upd_P1OUT w (\<lambda>v. v AND NOT BIT3) s
      else if pin = 4 then upd_P1OUT w (\<lambda>v. v AND NOT BIT4) s
      else if pin = 5 then upd_P1OUT w (\<lambda>v. v AND NOT BIT5) s
      else if pin = 6 then upd_P1OUT w (\<lambda>v. v AND NOT BIT6) s
      else if pin = 7 then upd_P1OUT w (\<lambda>v. v AND NOT BIT7) s
      else if pin = 8 then upd_P2OUT w (\<lambda>v. v AND NOT BIT0) s
      else if pin = 9 then upd_P2OUT w (\<lambda>v. v AND NOT BIT1) s
      else if pin = 10 then upd_P2OUT w (\<lambda>v. v AND NOT BIT2) s
      else if pin = 11 then upd_P2OUT w (\<lambda>v. v AND NOT BIT3) s
      else if pin = 12 then upd_P2OUT w (\<lambda>v. v AND NOT BIT4) s
      else if pin = 13 then upd_P2OUT w (\<lambda>v. v AND NOT BIT5) s
      else if pin = 14 then upd_P2OUT w (\<lambda>v. v AND NOT BIT6) s
      else if pin = 15 then upd_P2OUT w (\<lambda>v. v AND NOT BIT7) s
      else s)"

text \<open>\<^verbatim>\<open>read_pin\<close>, lines 403-425: the masked input register, 0 for a pin without a branch.\<close>

definition read_pin :: "'t world \<Rightarrow> pin \<Rightarrow> 't mcu \<Rightarrow> u8" where
  "read_pin w pin s =
     (if pin = 0 then port1_in w (target s) AND BIT0
      else if pin = 3 then port1_in w (target s) AND BIT3
      else if pin = 4 then port1_in w (target s) AND BIT4
      else if pin = 5 then port1_in w (target s) AND BIT5
      else if pin = 6 then port1_in w (target s) AND BIT6
      else if pin = 7 then port1_in w (target s) AND BIT7
      else if pin = 8 then port2_in w (target s) AND BIT0
      else if pin = 9 then port2_in w (target s) AND BIT1
      else if pin = 10 then port2_in w (target s) AND BIT2
      else if pin = 11 then port2_in w (target s) AND BIT3
      else if pin = 12 then port2_in w (target s) AND BIT4
      else if pin = 13 then port2_in w (target s) AND BIT5
      else if pin = 14 then port2_in w (target s) AND BIT6
      else if pin = 15 then port2_in w (target s) AND BIT7
      else 0)"

section \<open>Protocol primitives\<close>

text \<open>\<^verbatim>\<open>send_fixed_swd_pattern\<close>, lines 436-453; \<^verbatim>\<open>swdio\<close> and \<^verbatim>\<open>swclk\<close> are globals there.\<close>

definition send_fixed_swd_pattern ::
  "'t world \<Rightarrow> pin \<Rightarrow> pin \<Rightarrow> u8 \<Rightarrow> u16 \<Rightarrow> 't mcu \<Rightarrow> 't mcu" where
  "send_fixed_swd_pattern w swclk swdio val num s =
     (let s = (if val = 1 then set_pin w swdio s else clr_pin w swdio s);
          s = fold (\<lambda>j s. set_pin w swclk (clr_pin w swclk s)) [0..<unat num] s
      in clr_pin w swclk s)"

text \<open>\<^verbatim>\<open>send_16bit_swd_pattern\<close>, lines 463-479.  The state of the loop is the pattern and the machine.\<close>

definition send_16bit_swd_pattern ::
  "'t world \<Rightarrow> pin \<Rightarrow> pin \<Rightarrow> u16 \<Rightarrow> 't mcu \<Rightarrow> 't mcu" where
  "send_16bit_swd_pattern w swclk swdio pattern s =
     (let (pattern, s) =
            fold (\<lambda>j (pattern, s).
                    let s = clr_pin w swclk s;
                        s = (if pattern AND 0x8000 \<noteq> 0 then set_pin w swdio s
                             else clr_pin w swdio s);
                        s = set_pin w swclk s
                    in (push_bit 1 pattern, s)) [0..<16] (pattern, s)
      in clr_pin w swclk s)"

text \<open>\<^verbatim>\<open>count_ones\<close>, lines 489-500.\<close>

definition count_ones :: "u32 \<Rightarrow> int" where
  "count_ones val =
     snd (fold (\<lambda>j (val, cnt). (drop_bit 1 val, if val AND 0x1 \<noteq> 0 then cnt + 1 else cnt))
            [0..<32] (val, 0))"

section \<open>Signal sampler\<close>

text \<open>
  The sampling block that follows each \<^verbatim>\<open>byte_val = read_pin(...)\<close> in lines 594-600,
  788-796 and 894-901: count a toggle, remember the sample, shift the accumulator right
  and put the sample into bit 31.
\<close>

definition sample :: "'t mcu \<Rightarrow> 't mcu" where
  "sample s =
     (let s = (if byte_val s \<noteq> byte_prev s then s\<lparr>toggle_count := toggle_count s + 1\<rparr> else s);
          s = s\<lparr>byte_prev := byte_val s\<rparr>;
          s = s\<lparr>idval := drop_bit 1 (idval s)\<rparr>
      in if byte_val s = 0x00 then s\<lparr>idval := idval s AND NOT 0x80000000\<rparr>
         else s\<lparr>idval := idval s OR 0x80000000\<rparr>)"

text \<open>The sampler fed with a list of readings, from the initial values of lines 554-556.\<close>

definition observe_all :: "u8 list \<Rightarrow> 't mcu \<Rightarrow> 't mcu" where
  "observe_all bs s =
     fold (\<lambda>b s. sample (s\<lparr>byte_val := b\<rparr>)) bs
       (s\<lparr>byte_prev := 0x00, toggle_count := 0x00, idval := 0x00000000\<rparr>)"

section \<open>Search loops\<close>

text \<open>
  The loop nest of lines 522-534 (and again 697-709): every \<^verbatim>\<open>tck\<close>, \<^verbatim>\<open>tms\<close>,
  \<^verbatim>\<open>tdo\<close> below \<^verbatim>\<open>PINS\<close> in ascending order, with the three \<^verbatim>\<open>continue\<close>
  statements of the innermost loop and the one of the \<^verbatim>\<open>tms\<close> loop.  \<open>body\<close> is the
  rest of the innermost loop body.
\<close>

definition triple_loops :: "(pin \<Rightarrow> pin \<Rightarrow> pin \<Rightarrow> 's \<Rightarrow> 's) \<Rightarrow> 's \<Rightarrow> 's" where
  "triple_loops body s =
     fold (\<lambda>tck. fold (\<lambda>tms s.
       if tck = tms then s
       else fold (\<lambda>tdo s.
              if tck = tdo \<or> tms = tdo then s
              else if tck = 1 \<or> tms = 1 \<or> tdo = 1 then s
              else if tck = 2 \<or> tms = 2 \<or> tdo = 2 then s
              else body tck tms tdo s) [0..<PINS] s) [0..<PINS]) [0..<PINS] s"

text \<open>The \<^verbatim>\<open>tdi\<close> loop of lines 609-612 (and again 711-713).\<close>

definition tdi_loop :: "(pin \<Rightarrow> 's \<Rightarrow> 's) \<Rightarrow> pin \<Rightarrow> pin \<Rightarrow> pin \<Rightarrow> 's \<Rightarrow> 's" where
  "tdi_loop body tck tms tdo s =
     fold (\<lambda>tdi s.
       if tdi = tck \<or> tdi = tms \<or> tdi = tdo \<or> tdi = 1 \<or> tdi = 2 then s
       else body tdi s) [0..<PINS] s"

text \<open>The loop nest of lines 836-842.\<close>

definition pair_loops :: "(pin \<Rightarrow> pin \<Rightarrow> 's \<Rightarrow> 's) \<Rightarrow> 's \<Rightarrow> 's" where
  "pair_loops body s =
     fold (\<lambda>swclk. fold (\<lambda>swdio s.
       if swclk = swdio \<or> swclk = 1 \<or> swdio = 1 \<or> swclk = 2 \<or> swdio = 2 then s
       else body swclk swdio s) [0..<PINS]) [0..<PINS] s"

definition print :: "line \<Rightarrow> 't mcu \<Rightarrow> 't mcu" where
  "print l s = s\<lparr>console := console s @ [l]\<rparr>"

section \<open>JTAG finder, ID method\<close>

text \<open>Lines 549-556: pin setup and the initial values of a trial.\<close>

definition id_trial_init :: "'t world \<Rightarrow> pin \<Rightarrow> pin \<Rightarrow> 't mcu \<Rightarrow> 't mcu" where
  "id_trial_init w tck tms s =
     (let s = set_all_pins_to_inputs w s;
          s = set_pin_to_output w tck s;
          s = set_pin_to_output w tms s
      in s\<lparr>byte_prev := 0x00, toggle_count := 0x00, idval := 0x00000000\<rparr>)"

text \<open>Lines 581-601: the body of the loop of 40 clock pulses, for counter value \<open>j\<close>.\<close>

definition id_shift_step :: "'t world \<Rightarrow> pin \<Rightarrow> pin \<Rightarrow> pin \<Rightarrow> nat \<Rightarrow> 't mcu \<Rightarrow> 't mcu" where
  "id_shift_step w tck tms tdo j s =
     (let s = set_pin w tck s;
          s = clr_pin w tck s;
          s = (if j = 4 then clr_pin w tms s
               else if j = 5 then set_pin w tms s
               else if j = 6 then clr_pin w tms s
               else s)
      in if j > 7 then sample (s\<lparr>byte_val := read_pin w tdo s\<rparr>) else s)"

text \<open>Lines 574-602: \<^verbatim>\<open>tms\<close> high, then the loop of 40 clock pulses.\<close>

definition id_shift_loop :: "'t world \<Rightarrow> pin \<Rightarrow> pin \<Rightarrow> pin \<Rightarrow> 't mcu \<Rightarrow> 't mcu" where
  "id_shift_loop w tck tms tdo s =
     fold (id_shift_step w tck tms tdo) [0..<40] (set_pin w tms s)"

text \<open>One clock pulse as the JTAG loops issue it: \<^verbatim>\<open>set_pin(tck); clr_pin(tck);\<close>\<close>

definition pulse :: "'t world \<Rightarrow> pin \<Rightarrow> 't mcu \<Rightarrow> 't mcu" where
  "pulse w tck s = clr_pin w tck (set_pin w tck s)"

text \<open>Lines 630-634: the flush of 512 clock pulses.\<close>

definition id_flush :: "'t world \<Rightarrow> pin \<Rightarrow> 't mcu \<Rightarrow> 't mcu" where
  "id_flush w tck s = fold (\<lambda>j. pulse w tck) [0..<512] s"

text \<open>Lines 646-657: the body of the second loop of 512 pulses.  \<^verbatim>\<open>tc\<close> is an \<^verbatim>\<open>unsigned char\<close>.\<close>

definition id_inject_step :: "'t world \<Rightarrow> pin \<Rightarrow> pin \<Rightarrow> pin \<Rightarrow> nat \<Rightarrow> 't mcu \<Rightarrow> 't mcu" where
  "id_inject_step w tck tdo tdi j s =
     (let s = set_pin w tck s;
          s = clr_pin w tck s;
          s = (if j < 32 \<and> j mod 2 \<noteq> 0 then set_pin w tdi s else clr_pin w tdi s);
          s = s\<lparr>byte_val := read_pin w tdo s\<rparr>;
          s = (if byte_val s \<noteq> byte_prev s then s\<lparr>tc := tc s + 1\<rparr> else s)
      in s\<lparr>byte_prev := byte_val s\<rparr>)"

text \<open>Lines 644-658.\<close>

definition id_inject :: "'t world \<Rightarrow> pin \<Rightarrow> pin \<Rightarrow> pin \<Rightarrow> 't mcu \<Rightarrow> 't mcu" where
  "id_inject w tck tdo tdi s = fold (id_inject_step w tck tdo tdi) [0..<512] s"

text \<open>Lines 614-658: the trial of one \<^verbatim>\<open>tdi\<close> candidate up to its verdict.\<close>

definition id_tdi_measure :: "'t world \<Rightarrow> pin \<Rightarrow> pin \<Rightarrow> pin \<Rightarrow> pin \<Rightarrow> 't mcu \<Rightarrow> 't mcu" where
  "id_tdi_measure w tck tms tdo tdi s =
     (let s = (if vflag s \<noteq> 0 then print (Trying4 tck tms tdo tdi) s else s);
          s = s\<lparr>byte_prev := 0x00, tc := 0x00\<rparr>;
          s = set_pin_to_output w tdi s;
          s = id_flush w tck s
      in id_inject w tck tdo tdi s)"

text \<open>Lines 614-672: the trial of one \<^verbatim>\<open>tdi\<close> candidate, with the verdict of lines 662-672.\<close>

definition id_tdi_trial :: "'t world \<Rightarrow> pin \<Rightarrow> pin \<Rightarrow> pin \<Rightarrow> pin \<Rightarrow> 't mcu \<Rightarrow> 't mcu" where
  "id_tdi_trial w tck tms tdo tdi s =
     (let s = id_tdi_measure w tck tms tdo tdi s
      in if tc s > 29 \<and> tc s < 35
         then (print (FoundJtagId tck tms tdo tdi (idval s)) s)\<lparr>retval := 1\<rparr>
         else s)"

text \<open>Lines 536-674: the body of the innermost loop of the triple search.\<close>

definition id_trial :: "'t world \<Rightarrow> pin \<Rightarrow> pin \<Rightarrow> pin \<Rightarrow> 't mcu \<Rightarrow> 't mcu" where
  "id_trial w tck tms tdo s =
     (let s = (if vflag s \<noteq> 0 then print (Trying3 tck tms tdo) s else s);
          s = id_trial_init w tck tms s;
          s = id_shift_loop w tck tms tdo s
      in if toggle_count s > 7
         then tdi_loop (id_tdi_trial w tck tms tdo) tck tms tdo s
         else s)"

text \<open>\<^verbatim>\<open>jtag_finder_id_method\<close>, lines 518-679.\<close>

definition jtag_finder_id_method :: "'t world \<Rightarrow> 't mcu \<Rightarrow> u8 \<times> 't mcu" where
  "jtag_finder_id_method w s =
     (let s = triple_loops (id_trial w) (s\<lparr>retval := 0\<rparr>)
      in (retval s, s))"

section \<open>JTAG finder, bypass method\<close>

text \<open>Lines 728-743: pin setup, initial values, \<^verbatim>\<open>tms\<close> high and \<^verbatim>\<open>tdi\<close> low.\<close>

definition bypass_init :: "'t world \<Rightarrow> pin \<Rightarrow> pin \<Rightarrow> pin \<Rightarrow> 't mcu \<Rightarrow> 't mcu" where
  "bypass_init w tck tms tdi s =
     (let s = set_all_pins_to_inputs w s;
          s = set_pin_to_output w tck s;
          s = set_pin_to_output w tms s;
          s = set_pin_to_output w tdi s;
          s = s\<lparr>byte_prev := 0x00, toggle_count := 0x00, idval := 0x00000000\<rparr>;
          s = set_pin w tms s
      in clr_pin w tdi s)"

text \<open>Lines 749-753: the body of the loop of 9 pulses.\<close>

definition bypass_reset_step :: "'t world \<Rightarrow> pin \<Rightarrow> pin \<Rightarrow> nat \<Rightarrow> 't mcu \<Rightarrow> 't mcu" where
  "bypass_reset_step w tck tms j s =
     (let s = (if j = 5 then clr_pin w tms s
               else if j = 6 then set_pin w tms s
               else if j = 7 then clr_pin w tms s
               else s);
          s = set_pin w tck s
      in clr_pin w tck s)"

text \<open>Lines 747-754.\<close>

definition bypass_reset :: "'t world \<Rightarrow> pin \<Rightarrow> pin \<Rightarrow> 't mcu \<Rightarrow> 't mcu" where
  "bypass_reset w tck tms s = fold (bypass_reset_step w tck tms) [0..<9] s"

text \<open>Lines 765-770: the flush of 64 clock pulses.\<close>

definition bypass_flush :: "'t world \<Rightarrow> pin \<Rightarrow> 't mcu \<Rightarrow> 't mcu" where
  "bypass_flush w tck s = fold (\<lambda>j. pulse w tck) [0..<64] s"

text \<open>Lines 776-796: the body of the measurement loop.\<close>

definition bypass_shift_step :: "'t world \<Rightarrow> pin \<Rightarrow> pin \<Rightarrow> pin \<Rightarrow> nat \<Rightarrow> 't mcu \<Rightarrow> 't mcu" where
  "bypass_shift_step w tck tdo tdi j s =
     (let s = (if j mod 4 = 0 then set_pin w tdi s else clr_pin w tdi s);
          s = set_pin w tck s;
          s = clr_pin w tck s
      in sample (s\<lparr>byte_val := read_pin w tdo s\<rparr>))"

text \<open>Lines 773-797: \<^verbatim>\<open>tms\<close> low, then the measurement loop of 33 pulses.\<close>

definition bypass_shift :: "'t world \<Rightarrow> pin \<Rightarrow> pin \<Rightarrow> pin \<Rightarrow> pin \<Rightarrow> 't mcu \<Rightarrow> 't mcu" where
  "bypass_shift w tck tms tdo tdi s =
     fold (bypass_shift_step w tck tdo tdi) [0..<33] (clr_pin w tms s)"

text \<open>
  Lines 715-800: one trial up to its verdict.  \<open>count\<close> is the function called at line
  800; the sketch calls \<^verbatim>\<open>count_ones\<close>.
\<close>

definition bypass_measure ::
  "'t world \<Rightarrow> (u32 \<Rightarrow> int) \<Rightarrow> pin \<Rightarrow> pin \<Rightarrow> pin \<Rightarrow> pin \<Rightarrow> 't mcu \<Rightarrow> 't mcu" where
  "bypass_measure w count tck tms tdo tdi s =
     (let s = (if vflag s \<noteq> 0 then print (Trying4 tck tms tdo tdi) s else s);
          s = bypass_init w tck tms tdi s;
          s = bypass_reset w tck tms s;
          s = bypass_flush w tck s;
          s = bypass_shift w tck tms tdo tdi s
      in s\<lparr>cnt1 := count (idval s)\<rparr>)"

text \<open>Lines 715-815: one trial, with the verdict of lines 804-815.\<close>

definition bypass_trial ::
  "'t world \<Rightarrow> (u32 \<Rightarrow> int) \<Rightarrow> pin \<Rightarrow> pin \<Rightarrow> pin \<Rightarrow> pin \<Rightarrow> 't mcu \<Rightarrow> 't mcu" where
  "bypass_trial w count tck tms tdo tdi s =
     (let s = bypass_measure w count tck tms tdo tdi s
      in if toggle_count s > 13 \<and> toggle_count s < 19
         then (set_pin w tms (print (FoundBypass tck tms tdo tdi (idval s)) s))\<lparr>retval := 1\<rparr>
         else s)"

text \<open>The finder of lines 693-821 with the function called at line 800 left open.\<close>

definition bypass_search :: "'t world \<Rightarrow> (u32 \<Rightarrow> int) \<Rightarrow> 't mcu \<Rightarrow> u8 \<times> 't mcu" where
  "bypass_search w count s =
     (let s = triple_loops (\<lambda>tck tms tdo. tdi_loop (bypass_trial w count tck tms tdo) tck tms tdo)
                (s\<lparr>retval := 0\<rparr>)
      in (retval s, s))"

text \<open>\<^verbatim>\<open>jtag_finder_bypass_method\<close>, lines 693-821.\<close>

definition jtag_finder_bypass_method :: "'t world \<Rightarrow> 't mcu \<Rightarrow> u8 \<times> 't mcu" where
  "jtag_finder_bypass_method w s = bypass_search w count_ones s"

section \<open>SWD finder\<close>

text \<open>Lines 868-873: the six calls that emit the connection sequence.\<close>

definition swd_connect :: "'t world \<Rightarrow> pin \<Rightarrow> pin \<Rightarrow> 't mcu \<Rightarrow> 't mcu" where
  "swd_connect w swclk swdio s =
     (let s = send_fixed_swd_pattern w swclk swdio 0 8 s;
          s = send_fixed_swd_pattern w swclk swdio 1 50 s;
          s = send_fixed_swd_pattern w swclk swdio 0 0x79e7 s;
          s = send_fixed_swd_pattern w swclk swdio 0 8 s;
          s = send_fixed_swd_pattern w swclk swdio 1 50 s
      in send_fixed_swd_pattern w swclk swdio 0 0x00a5 s)"

text \<open>Lines 887-902: the body of the read loop.\<close>

definition swd_read_step :: "'t world \<Rightarrow> pin \<Rightarrow> pin \<Rightarrow> nat \<Rightarrow> 't mcu \<Rightarrow> 't mcu" where
  "swd_read_step w swclk swdio j s =
     (let s = clr_pin w swclk s;
          s = set_pin w swclk s
      in if j > 2 \<and> j < 35 then sample (s\<lparr>byte_val := read_pin w swdio s\<rparr>) else s)"

text \<open>Lines 844-906: the trial of one pair up to its verdict.\<close>

definition swd_measure :: "'t world \<Rightarrow> pin \<Rightarrow> pin \<Rightarrow> 't mcu \<Rightarrow> 't mcu" where
  "swd_measure w swclk swdio s =
     (let s = (if vflag s \<noteq> 0 then print (TryingSwd swclk swdio) s else s);
          s = set_all_pins_to_inputs w s;
          s = set_pin_to_output w swclk s;
          s = set_pin_to_output w swdio s;
          s = s\<lparr>byte_prev := 0x00, toggle_count := 0x00, idval := 0x00000000\<rparr>;
          s = swd_connect w swclk swdio s;
          s = clr_pin w swclk s;
          s = clr_pin w swdio s;
          s = set_pin_to_input w swdio s;
          s = fold (swd_read_step w swclk swdio) [0..<38] s;
          s = clr_pin w swclk s
      in clr_pin w swdio s)"

text \<open>Lines 844-917: the trial of one pair, with the verdict of lines 909-917.\<close>

definition swd_trial :: "'t world \<Rightarrow> pin \<Rightarrow> pin \<Rightarrow> 't mcu \<Rightarrow> 't mcu" where
  "swd_trial w swclk swdio s =
     (let s = swd_measure w swclk swdio s
      in if toggle_count s > 7
         then (print (FoundSwd swclk swdio (idval s)) s)\<lparr>retval := 1\<rparr>
         else s)"

text \<open>\<^verbatim>\<open>swd_finder\<close>, lines 832-921.\<close>

definition swd_finder :: "'t world \<Rightarrow> 't mcu \<Rightarrow> u8 \<times> 't mcu" where
  "swd_finder w s =
     (let s = pair_loops (swd_trial w) (s\<lparr>retval := 0\<rparr>)
      in (retval s, s))"

section \<open>Orchestration\<close>

text \<open>The texts that \<^verbatim>\<open>setup\<close> prints when a finder returns 0 (lines 968, 973, 978).\<close>

definition not_found_id :: line where
  "not_found_id = Text ''    Did not find a JTAG interface using the JTAG ID method.''"

definition not_found_bypass :: line where
  "not_found_bypass = Text ''    Did not find a JTAG interface using Bypass method.''"

definition not_found_swd :: line where
  "not_found_swd = Text ''    Did not find a SWD interface.''"

text \<open>
  Lines 966-979 of \<^verbatim>\<open>setup\<close>: the three finders in sequence, each followed by its
  not-found text when it returned 0.
\<close>

definition run_finders :: "'t world \<Rightarrow> 't mcu \<Rightarrow> 't mcu" where
  "run_finders w s =
     (let s = print (Text ''  Start of JTAG Finder using JTAG ID method.'') s;
          (r, s) = jtag_finder_id_method w s;
          s = (if r = 0 then print not_found_id s else s);
          s = print (Text ''  End of JTAG Finder using JTAG ID method.'') s;
          s = print (Text ''  Start of JTAG Finder using Bypass method.'') s;
          (r, s) = jtag_finder_bypass_method w s;
          s = (if r = 0 then print not_found_bypass s else s);
          s = print (Text ''  End of JTAG Finder using Bypass method.'') s;
          s = print (Text ''  Start of SWD Finder.'') s;
          (r, s) = swd_finder w s;
          s = (if r = 0 then print not_found_swd s else s)
      in print (Text ''  End of SWD Finder.'') s)"

text \<open>
  Lines 935-964 of \<^verbatim>\<open>setup\<close>: the banner, the prompt and the verbosity flag, set from
  the byte read from the serial line.  A \<open>Text\<close> holds the printable characters of one
  message; line terminators are not kept.
\<close>

definition setup_prompt :: "u8 \<Rightarrow> 't mcu \<Rightarrow> 't mcu" where
  "setup_prompt incomingByte s =
     (let s = s\<lparr>vflag := 0\<rparr>;
          s = print (Text ''----------------------------------------------------------------------'') s;
          s = print (Text ''------------------- LaunchPad JTAG/SWD Finder v1.0 -------------------'') s;
          s = print (Text ''----------------------------------------------------------------------'') s;
          s = print (Text ''The test results below use the numbers 0 thru 15 as follows to specify'') s;
          s = print (Text ''any MSP430G2553 pins that are connected to JTAG or SWD signals:'') s;
          s = print (Text ''  0:P1.0   1:n/a    2:n/a    3:Pl.3   4:P1.4   5:P1.5   6:P1.6   7:P1.7'') s;
          s = print (Text ''  8:P2.0   9:P2.1  10:P2.2  11:P2.3  12:P2.4  13:P2.5  14:P2.6  15:P2.7'') s;
          s = print (Text ''Press 'v' for verbose mode or any other key for non-verbose mode.'') s;
          s = (if incomingByte = 0x76 \<or> incomingByte = 0x56 then s\<lparr>vflag := 1\<rparr> else s);
          s = (if vflag s = 1 then print (Text ''  Verbose mode on.'') s
               else print (Text ''  Verbose mode off.'') s)
      in print (Text ''Begin testing...'') s)"

text \<open>
  \<^verbatim>\<open>setup\<close>, lines 933-983 (\<open>setup\<close> is a keyword here, hence the suffix).  \<open>rx\<close> is the
  byte that arrives on the serial line, if one ever does: the loop of line 954 waits for
  it, so without a byte \<^verbatim>\<open>setup\<close> does not return.
\<close>

definition setup_sketch :: "'t world \<Rightarrow> u8 option \<Rightarrow> 't mcu \<Rightarrow> 't mcu option" where
  "setup_sketch w rx s =
     (case rx of
        None \<Rightarrow> None
      | Some incomingByte \<Rightarrow>
          (let s = setup_prompt incomingByte s;
               s = run_finders w s
           in Some (print (Text ''Done testing.'') s)))"

text \<open>The lines that report an accepted candidate, per finder.\<close>

fun is_found_id :: "line \<Rightarrow> bool" where
  "is_found_id (FoundJtagId tck tms tdo tdi v) = True"
| "is_found_id l = False"

fun is_found_bypass :: "line \<Rightarrow> bool" where
  "is_found_bypass (FoundBypass tck tms tdo tdi v) = True"
| "is_found_bypass l = False"

fun is_found_swd :: "line \<Rightarrow> bool" where
  "is_found_swd (FoundSwd swclk swdio v) = True"
| "is_found_swd l = False"

text \<open>The lines a run from \<open>s\<close> to \<open>s'\<close> has added to the console.\<close>

definition printed :: "'t mcu \<Rightarrow> 't mcu \<Rightarrow> line list" where
  "printed s s' = drop (length (console s)) (console s')"

section \<open>Pin-level view of the registers\<close>

definition dir_bit :: "ports \<Rightarrow> pin \<Rightarrow> bool" where
  "dir_bit ps p = (if p < 8 then bit (P1DIR ps) p else bit (P2DIR ps) (p - 8))"

definition ren_bit :: "ports \<Rightarrow> pin \<Rightarrow> bool" where
  "ren_bit ps p = (if p < 8 then bit (P1REN ps) p else bit (P2REN ps) (p - 8))"

definition out_bit :: "ports \<Rightarrow> pin \<Rightarrow> bool" where
  "out_bit ps p = (if p < 8 then bit (P1OUT ps) p else bit (P2OUT ps) (p - 8))"

text \<open>The pins a finder may use: ordinals below \<^verbatim>\<open>PINS\<close> other than the two of the serial link.\<close>

definition usable :: "pin \<Rightarrow> bool" where
  "usable p \<longleftrightarrow> p < PINS \<and> p \<noteq> 1 \<and> p \<noteq> 2"

section \<open>Simulated targets\<close>

text \<open>Nothing connected: the world ignores the pins and every input reads 0.\<close>

definition quiet :: "unit world" where
  "quiet = \<lparr>react = (\<lambda>ps t. t), port1_in = (\<lambda>t. 0), port2_in = (\<lambda>t. 0)\<rparr>"

text \<open>A machine with all registers and variables zero, wired to a world in state \<open>t\<close>.\<close>

definition power_on :: "'t \<Rightarrow> 't mcu" where
  "power_on t =
     \<lparr>ports = \<lparr>P1DIR = 0, P1REN = 0, P1OUT = 0, P2DIR = 0, P2REN = 0, P2OUT = 0\<rparr>,
      target = t, byte_val = 0, byte_prev = 0, toggle_count = 0, tc = 0, idval = 0,
      cnt1 = 0, vflag = 0, retval = 0, console = []\<rparr>"

text \<open>
  A logic analyser with a scripted response.  It watches the output latches of a clock
  pin \<open>c\<close> and a data pin \<open>d\<close>: at every rising edge of the clock latch it records the
  level of the data latch.  After \<open>n\<close> rising edges every input line of both ports reads
  the level \<open>resp n\<close>.
\<close>

record probe =
  clk_was :: bool
  seen :: "bool list"

definition probe_react :: "pin \<Rightarrow> pin \<Rightarrow> ports \<Rightarrow> probe \<Rightarrow> probe" where
  "probe_react c d ps t =
     (if out_bit ps c \<and> \<not> clk_was t then \<lparr>clk_was = True, seen = seen t @ [out_bit ps d]\<rparr>
      else t\<lparr>clk_was := out_bit ps c\<rparr>)"

definition probe_world :: "pin \<Rightarrow> pin \<Rightarrow> (nat \<Rightarrow> bool) \<Rightarrow> probe world" where
  "probe_world c d resp =
     \<lparr>react = probe_react c d,
      port1_in = (\<lambda>t. if resp (length (seen t)) then 0xFF else 0x00),
      port2_in = (\<lambda>t. if resp (length (seen t)) then 0xFF else 0x00)\<rparr>"

definition probe_idle :: probe where
  "probe_idle = \<lparr>clk_was = False, seen = []\<rparr>"

text \<open>
  The same analyser on lines that differ: after \<open>n\<close> rising edges the input line of pin
  \<open>p\<close> reads the level \<open>resp p n\<close>, every pin following a script of its own.  \<open>lines_in\<close>
  packs the levels of the eight pins from ordinal \<open>base\<close> on into an input register.
\<close>

definition lines_in :: "(pin \<Rightarrow> bool) \<Rightarrow> pin \<Rightarrow> u8" where
  "lines_in lv base = horner_sum of_bool 2 (map (\<lambda>i. lv (base + i)) [0..<8])"

definition wired_probe :: "pin \<Rightarrow> pin \<Rightarrow> (pin \<Rightarrow> nat \<Rightarrow> bool) \<Rightarrow> probe world" where
  "wired_probe c d resp =
     \<lparr>react = probe_react c d,
      port1_in = (\<lambda>t. lines_in (\<lambda>p. resp p (length (seen t))) 0),
      port2_in = (\<lambda>t. lines_in (\<lambda>p. resp p (length (seen t))) 8)\<rparr>"

text \<open>The last \<open>n\<close> bits shifted into the accumulator, oldest first.\<close>

definition captured :: "nat \<Rightarrow> u32 \<Rightarrow> bool list" where
  "captured n v = map (bit v) [32 - n..<32]"

section \<open>Candidates that reach a trial\<close>

text \<open>
  The same loops with a body that only notes the candidate it is called with: the triples,
  the \<^verbatim>\<open>tdi\<close> pins for one triple, and the pairs that reach a loop body, in order.
\<close>

definition tested_triples :: "(pin \<times> pin \<times> pin) list" where
  "tested_triples = triple_loops (\<lambda>tck tms tdo l. l @ [(tck, tms, tdo)]) []"

definition tested_tdi :: "pin \<Rightarrow> pin \<Rightarrow> pin \<Rightarrow> pin list" where
  "tested_tdi tck tms tdo = tdi_loop (\<lambda>tdi l. l @ [tdi]) tck tms tdo []"

definition tested_pairs :: "(pin \<times> pin) list" where
  "tested_pairs = pair_loops (\<lambda>swclk swdio l. l @ [(swclk, swdio)]) []"

text \<open>The same candidates as filtered lists; the triples are nested as \<open>((tck, tms), tdo)\<close>.\<close>

definition tdi_candidates :: "pin \<Rightarrow> pin \<Rightarrow> pin \<Rightarrow> pin list" where
  "tdi_candidates tck tms tdo =
     filter (\<lambda>tdi. \<not> (tdi = tck \<or> tdi = tms \<or> tdi = tdo \<or> tdi = 1 \<or> tdi = 2)) [0..<PINS]"

definition pair_candidates :: "(pin \<times> pin) list" where
  "pair_candidates =
     filter (\<lambda>p. \<not> (fst p = snd p \<or> fst p = 1 \<or> snd p = 1 \<or> fst p = 2 \<or> snd p = 2))
       (concat (map (\<lambda>swclk. map (Pair swclk) [0..<PINS]) [0..<PINS]))"

definition triple_candidates :: "((pin \<times> pin) \<times> pin) list" where
  "triple_candidates =
     filter (\<lambda>p. \<not> (fst (fst p) = snd (fst p) \<or> (fst (fst p) = snd p \<or> snd (fst p) = snd p)
               \<or> (fst (fst p) = 1 \<or> snd (fst p) = 1 \<or> snd p = 1)
               \<or> (fst (fst p) = 2 \<or> snd (fst p) = 2 \<or> snd p = 2)))
       (concat (map (\<lambda>q. map (Pair q) [0..<PINS])
          (concat (map (\<lambda>tck. map (Pair tck) [0..<PINS]) [0..<PINS]))))"

text \<open>The lines that name a candidate under test (verbose mode).\<close>

fun is_trying :: "line \<Rightarrow> bool" where
  "is_trying (Trying3 tck tms tdo) = True"
| "is_trying (Trying4 tck tms tdo tdi) = True"
| "is_trying (TryingSwd swclk swdio) = True"
| "is_trying l = False"

text \<open>The lines that name a triple under test, and those that name a \<^verbatim>\<open>tdi\<close> candidate.\<close>

fun is_trying3 :: "line \<Rightarrow> bool" where
  "is_trying3 (Trying3 tck tms tdo) = True"
| "is_trying3 l = False"

fun is_trying4 :: "line \<Rightarrow> bool" where
  "is_trying4 (Trying4 tck tms tdo tdi) = True"
| "is_trying4 l = False"

text \<open>
  What holds between the trials of a finder that started with console \<open>c0\<close>: the finder
  has added only candidate lines and reports of its own kind \<open>found\<close>, and \<open>retval\<close> is 1
  if it has added a report and 0 otherwise.
\<close>

definition search_inv :: "(line \<Rightarrow> bool) \<Rightarrow> line list \<Rightarrow> 't mcu \<Rightarrow> bool" where
  "search_inv found c0 s \<longleftrightarrow>
     (\<exists>out. console s = c0 @ out \<and> (\<forall>l \<in> set out. is_trying l \<or> found l)
         \<and> (retval s = 1 \<longleftrightarrow> (\<exists>l \<in> set out. found l)) \<and> (retval s = 0 \<or> retval s = 1))"

text \<open>
  A search that runs the trials \<open>f x\<close> of the candidates \<open>xs\<close> in order, from state \<open>s\<close>:
  some candidate, tried in the state that the search had reached when its turn came, met
  the test \<open>acc\<close>.
\<close>

fun some_accepted :: "('x \<Rightarrow> 's \<Rightarrow> bool) \<Rightarrow> ('x \<Rightarrow> 's \<Rightarrow> 's) \<Rightarrow> 'x list \<Rightarrow> 's \<Rightarrow> bool" where
  "some_accepted acc f [] s = False"
| "some_accepted acc f (x # xs) s = (acc x s \<or> some_accepted acc f xs (f x s))"

section \<open>Pins one at a time\<close>

text \<open>
  The output latch of one pin rewritten, all other bits kept: what \<^verbatim>\<open>set_pin\<close> and
  \<^verbatim>\<open>clr_pin\<close> do to the registers of a usable pin.
\<close>

definition pin_mask :: "pin \<Rightarrow> u8" where
  "pin_mask p = 2 ^ (p mod 8)"

definition with_out :: "pin \<Rightarrow> bool \<Rightarrow> ports \<Rightarrow> ports" where
  "with_out p b ps =
     (if p < 8
      then ps\<lparr>P1OUT := (if b then P1OUT ps OR pin_mask p else P1OUT ps AND NOT (pin_mask p))\<rparr>
      else ps\<lparr>P2OUT := (if b then P2OUT ps OR pin_mask p else P2OUT ps AND NOT (pin_mask p))\<rparr>)"

text \<open>The byte that \<^verbatim>\<open>read_pin\<close> returns for a pin at level \<open>b\<close>.\<close>

definition level_byte :: "pin \<Rightarrow> bool \<Rightarrow> u8" where
  "level_byte p b = (if b then pin_mask p else 0)"

text \<open>The accumulator after one more sample \<open>b\<close>: shifted right, \<open>b\<close> in bit 31.\<close>

definition shift_in :: "bool \<Rightarrow> u32 \<Rightarrow> u32" where
  "shift_in b v = (if b then drop_bit 1 v OR 0x80000000 else drop_bit 1 v AND NOT 0x80000000)"

text \<open>The number of positions of a list of samples that differ from the sample before, \<open>prev\<close> at first.\<close>

fun toggles :: "bool \<Rightarrow> bool list \<Rightarrow> nat" where
  "toggles prev [] = 0"
| "toggles prev (b # bs) = (if b \<noteq> prev then 1 else 0) + toggles b bs"

text \<open>
  Modelled from the spec: the simulated target of the bypass test, a one-bit register
  between DataIn and DataOut with a delay of one clock cycle.  At every rising edge of
  the clock latch \<open>tck\<close> the target puts on DataOut what it held and then holds the level
  of the DataIn latch \<open>tdi\<close>; every input line of both ports reads DataOut.
\<close>

record bypass_tap =
  tck_was :: bool
  held :: bool
  shown :: bool

definition bypass_react :: "pin \<Rightarrow> pin \<Rightarrow> ports \<Rightarrow> bypass_tap \<Rightarrow> bypass_tap" where
  "bypass_react tck tdi ps t =
     (if out_bit ps tck \<and> \<not> tck_was t
      then \<lparr>tck_was = True, held = out_bit ps tdi, shown = held t\<rparr>
      else t\<lparr>tck_was := out_bit ps tck\<rparr>)"

definition bypass_world :: "pin \<Rightarrow> pin \<Rightarrow> bypass_tap world" where
  "bypass_world tck tdi =
     \<lparr>react = bypass_react tck tdi,
      port1_in = (\<lambda>t. if shown t then 0xFF else 0x00),
      port2_in = (\<lambda>t. if shown t then 0xFF else 0x00)\<rparr>"

text \<open>
  Two scripted responses for the logic analyser, as functions of the number of rising
  clock edges seen.  \<open>busy_line\<close>: the line alternates after each of the edges 513 to 800
  (288 level changes) and then stays low.  \<open>one_echo\<close>: the line alternates after the edges
  9 to 40 and again after the edges 553 to 584 (32 level changes), and is low otherwise.
\<close>

definition busy_line :: "nat \<Rightarrow> bool" where
  "busy_line n \<longleftrightarrow> 512 < n \<and> n \<le> 800 \<and> odd n"

definition one_echo :: "nat \<Rightarrow> bool" where
  "one_echo n \<longleftrightarrow> (9 \<le> n \<and> n \<le> 40 \<and> even n) \<or> (552 < n \<and> n \<le> 584 \<and> odd n)"

section \<open>Properties\<close>

lemma usable_cases:
  "usable p \<Longrightarrow> p = 0 \<or> p = 3 \<or> p = 4 \<or> p = 5 \<or> p = 6 \<or> p = 7 \<or> p = 8 \<or> p = 9
     \<or> p = 10 \<or> p = 11 \<or> p = 12 \<or> p = 13 \<or> p = 14 \<or> p = 15"
  unfolding usable_def PINS_def by arith

lemmas BIT_defs = BIT0_def BIT1_def BIT2_def BIT3_def BIT4_def BIT5_def BIT6_def BIT7_def

lemmas upd_defs = upd_P1DIR_def upd_P1REN_def upd_P1OUT_def upd_P2DIR_def upd_P2REN_def
  upd_P2OUT_def

subsection \<open>Pin configuration\<close>

text \<open>
  C2 (as the code has it): \<^verbatim>\<open>set_all_pins_to_inputs\<close> leaves every usable pin an input
  with its pull resistor enabled and sets the output latch of every port-2 pin (ordinals
  8 to 15) to 1; \<^verbatim>\<open>set_pin_to_input\<close> leaves the given usable pin an input with its
  pull resistor enabled and its output latch cleared to 0.
\<close>

theorem input_configuration:
  assumes "usable p"
  shows "\<not> dir_bit (ports (set_all_pins_to_inputs w s)) p
       \<and> ren_bit (ports (set_all_pins_to_inputs w s)) p
       \<and> (8 \<le> p \<longrightarrow> out_bit (ports (set_all_pins_to_inputs w s)) p)
       \<and> \<not> dir_bit (ports (set_pin_to_input w p s)) p
       \<and> ren_bit (ports (set_pin_to_input w p s)) p
       \<and> \<not> out_bit (ports (set_pin_to_input w p s)) p"
  using usable_cases [OF assms]
  by (elim disjE)
     (simp_all add: set_all_pins_to_inputs_def set_pin_to_input_def input_P1_def input_P2_def
        upd_defs dir_bit_def ren_bit_def out_bit_def BIT_defs Let_def bit_simps)

theorem input_configuration_witness:
  "usable 9
   \<and> \<not> dir_bit (ports (set_all_pins_to_inputs quiet (power_on ()))) 9
   \<and> ren_bit (ports (set_all_pins_to_inputs quiet (power_on ()))) 9
   \<and> out_bit (ports (set_all_pins_to_inputs quiet (power_on ()))) 9
   \<and> \<not> out_bit (ports (set_pin_to_input quiet 9 (power_on ()))) 9"
proof -
  have u: "usable 9" by (simp add: usable_def PINS_def)
  show ?thesis using u input_configuration [OF u, of quiet "power_on ()"] by simp
qed

text \<open>
  C2 as stated fails: after \<^verbatim>\<open>set_pin_to_input\<close> on pin 3, driven high before, the
  latch of pin 3 is 0, and \<^verbatim>\<open>set_all_pins_to_inputs\<close> on a machine with all latches 0
  leaves the latch of pin 3 at 0.
\<close>

theorem input_level_counterexample:
  "out_bit (ports (set_pin quiet 3 (set_pin_to_output quiet 3 (power_on ())))) 3
   \<and> \<not> out_bit (ports (set_pin_to_input quiet 3
                         (set_pin quiet 3 (set_pin_to_output quiet 3 (power_on ()))))) 3
   \<and> \<not> out_bit (ports (set_all_pins_to_inputs quiet (power_on ()))) 3"
  by (simp add: set_all_pins_to_inputs_def set_pin_to_input_def set_pin_to_output_def
        set_pin_def input_P1_def output_P1_def upd_defs out_bit_def BIT_defs Let_def
        power_on_def quiet_def)

subsection \<open>Signal sampler\<close>

text \<open>
  C8 (as the code has it): fed the readings 0, 0, 1, 1, 0, 1 (any non-zero byte for a 1),
  the sampler counts 3 toggles and leaves the accumulator at \<open>0xB0000000\<close>: the six
  samples sit in bits 26 to 31, the first one lowest, so the accumulator shifted right by
  26 reads \<open>0b101100\<close> and the low six bits of the accumulator are 0.
\<close>

theorem sampler_example:
  assumes "m \<noteq> 0"
  shows "toggle_count (observe_all [0, 0, m, m, 0, m] s) = 3
       \<and> idval (observe_all [0, 0, m, m, 0, m] s) = 0xB0000000
       \<and> drop_bit 26 (idval (observe_all [0, 0, m, m, 0, m] s)) = 0b101100
       \<and> take_bit 6 (idval (observe_all [0, 0, m, m, 0, m] s)) = 0
       \<and> captured 6 (idval (observe_all [0, 0, m, m, 0, m] s))
           = [False, False, True, True, False, True]"
  using assms by (simp add: observe_all_def sample_def captured_def upt_rec)

theorem sampler_example_witness:
  "(1 :: u8) \<noteq> 0
   \<and> toggle_count (observe_all [0, 0, 1, 1, 0, 1] (power_on ())) = 3
   \<and> idval (observe_all [0, 0, 1, 1, 0, 1] (power_on ())) = 0xB0000000"
proof -
  have m: "(1 :: u8) \<noteq> 0" by simp
  show ?thesis using m sampler_example [OF m, of "power_on ()"] by simp
qed

text \<open>
  C8 as stated fails: after the six readings neither the low six bits of the accumulator
  nor its six captured bits (bits 26 to 31) are \<open>0b011010\<close>.
\<close>

theorem sampler_low_bits_counterexample:
  "take_bit 6 (idval (observe_all [0, 0, 1, 1, 0, 1] (power_on ()))) \<noteq> 0b011010
   \<and> drop_bit 26 (idval (observe_all [0, 0, 1, 1, 0, 1] (power_on ()))) \<noteq> 0b011010
   \<and> captured 6 (idval (observe_all [0, 0, 1, 1, 0, 1] (power_on ())))
       \<noteq> [False, True, True, False, True, False]"
  by (simp add: observe_all_def sample_def captured_def upt_rec)

subsection \<open>Loops as folds over candidate lists\<close>

lemma fold_guard:
  "fold (\<lambda>x s. if P x then s else f x s) xs s = fold f (filter (\<lambda>x. \<not> P x) xs) s"
  by (induction xs arbitrary: s) simp_all

lemma fold_skip: "fold (\<lambda>x s. s) xs s = s"
  by (induction xs) simp_all

lemma fold_guard_out:
  "(if c then s else fold f xs s) = fold (\<lambda>x s. if c then s else f x s) xs s"
  by (simp add: fold_skip)

lemma fold_note: "fold (\<lambda>x l. l @ [h x]) xs l = l @ map h xs"
  by (induction xs arbitrary: l) simp_all

lemma fold_product:
  "fold (\<lambda>x. fold (g x) (ys x)) xs s
     = fold (\<lambda>p. g (fst p) (snd p)) (concat (map (\<lambda>x. map (Pair x) (ys x)) xs)) s"
  by (induction xs arbitrary: s) (simp_all add: fold_map comp_def)

lemma tdi_loop_fold: "tdi_loop body tck tms tdo s = fold body (tdi_candidates tck tms tdo) s"
  unfolding tdi_loop_def tdi_candidates_def by (rule fold_guard)

lemma tested_tdi_eq: "tested_tdi tck tms tdo = tdi_candidates tck tms tdo"
  unfolding tested_tdi_def tdi_loop_fold by (simp add: fold_note)

lemma pair_loops_fold:
  "pair_loops body s = fold (\<lambda>p. body (fst p) (snd p)) pair_candidates s"
  unfolding pair_loops_def pair_candidates_def fold_product
  by (rule fold_guard)

lemma tested_pairs_eq: "tested_pairs = pair_candidates"
  unfolding tested_pairs_def pair_loops_fold
  using fold_note [of "\<lambda>x. x" pair_candidates "[]"] by simp

lemma triple_loops_fold:
  "triple_loops body s
     = fold (\<lambda>p. body (fst (fst p)) (snd (fst p)) (snd p)) triple_candidates s"
proof -
  let ?bad = "\<lambda>tck tms tdo. tck = tms \<or> (tck = tdo \<or> tms = tdo)
      \<or> (tck = 1 \<or> tms = 1 \<or> tdo = 1) \<or> (tck = 2 \<or> tms = 2 \<or> tdo = 2)"
  let ?h = "\<lambda>tck tms tdo s. if ?bad tck tms tdo then s else body tck tms tdo s"
  have "triple_loops body s = fold (\<lambda>tck. fold (\<lambda>tms. fold (?h tck tms) [0..<PINS]) [0..<PINS]) [0..<PINS] s"
  proof -
    have "(if tck = tms then s
           else fold (\<lambda>tdo s. if tck = tdo \<or> tms = tdo then s
                              else if tck = 1 \<or> tms = 1 \<or> tdo = 1 then s
                              else if tck = 2 \<or> tms = 2 \<or> tdo = 2 then s
                              else body tck tms tdo s) [0..<PINS] s)
          = fold (?h tck tms) [0..<PINS] s" for tck tms s
      by (subst fold_guard_out) (rule fold_cong, auto)
    then show ?thesis unfolding triple_loops_def by simp
  qed
  also have "\<dots> = fold (\<lambda>p. ?h (fst (fst p)) (snd (fst p)) (snd p))
       (concat (map (\<lambda>q. map (Pair q) [0..<PINS])
          (concat (map (\<lambda>tck. map (Pair tck) [0..<PINS]) [0..<PINS])))) s"
    unfolding fold_product ..
  also have "\<dots> = fold (\<lambda>p. body (fst (fst p)) (snd (fst p)) (snd p)) triple_candidates s"
    unfolding triple_candidates_def by (rule fold_guard)
  finally show ?thesis .
qed

lemma tested_triples_eq:
  "tested_triples = map (\<lambda>p. (fst (fst p), snd (fst p), snd p)) triple_candidates"
  unfolding tested_triples_def triple_loops_fold
  using fold_note [of "\<lambda>p. (fst (fst p), snd (fst p), snd p)" triple_candidates "[]"] by simp

lemma triple_candidates_ok:
  "((tck, tms), tdo) \<in> set triple_candidates \<longleftrightarrow>
     usable tck \<and> usable tms \<and> usable tdo \<and> tck \<noteq> tms \<and> tck \<noteq> tdo \<and> tms \<noteq> tdo"
  unfolding triple_candidates_def usable_def by (auto simp: image_iff)

lemma tested_triples_ok:
  "(tck, tms, tdo) \<in> set tested_triples \<longleftrightarrow>
     usable tck \<and> usable tms \<and> usable tdo \<and> tck \<noteq> tms \<and> tck \<noteq> tdo \<and> tms \<noteq> tdo"
  unfolding tested_triples_eq using triple_candidates_ok [of tck tms tdo]
  by (force simp: image_iff)

lemma triple_loops_tested:
  "triple_loops body s = fold (\<lambda>(tck, tms, tdo). body tck tms tdo) tested_triples s"
  unfolding tested_triples_eq triple_loops_fold by (simp add: fold_map comp_def)

lemma pair_loops_tested:
  "pair_loops body s = fold (\<lambda>(swclk, swdio). body swclk swdio) tested_pairs s"
  unfolding tested_pairs_eq pair_loops_fold by (simp add: case_prod_unfold)

lemma tdi_loop_tested:
  "tdi_loop body tck tms tdo s = fold body (tested_tdi tck tms tdo) s"
  unfolding tested_tdi_eq by (rule tdi_loop_fold)

lemma tdi_candidates_ok:
  "tdi \<in> set (tdi_candidates tck tms tdo) \<longleftrightarrow>
     usable tdi \<and> tdi \<noteq> tck \<and> tdi \<noteq> tms \<and> tdi \<noteq> tdo"
  unfolding tdi_candidates_def usable_def by auto

lemma pair_candidates_ok:
  "(swclk, swdio) \<in> set pair_candidates \<longleftrightarrow> usable swclk \<and> usable swdio \<and> swclk \<noteq> swdio"
  unfolding pair_candidates_def usable_def by (auto simp: image_iff)


subsection \<open>Candidates\<close>

text \<open>
  C3: every triple, every \<^verbatim>\<open>tdi\<close> pin for a triple and every pair that reaches a loop
  body consists of pairwise different pins, none of them pin 1 or pin 2 (all of them
  usable); and each of the three finders runs its trials on exactly these candidates, in
  order.
\<close>

theorem tested_assignments_valid:
  "(\<forall>(tck, tms, tdo) \<in> set tested_triples.
       distinct [tck, tms, tdo] \<and> usable tck \<and> usable tms \<and> usable tdo
       \<and> (\<forall>tdi \<in> set (tested_tdi tck tms tdo). distinct [tck, tms, tdo, tdi] \<and> usable tdi))
   \<and> (\<forall>(swclk, swdio) \<in> set tested_pairs. swclk \<noteq> swdio \<and> usable swclk \<and> usable swdio)
   \<and> jtag_finder_id_method w s =
       (let s' = fold (\<lambda>(tck, tms, tdo). id_trial w tck tms tdo) tested_triples (s\<lparr>retval := 0\<rparr>)
        in (retval s', s'))
   \<and> (\<forall>tck tms tdo s. id_trial w tck tms tdo s =
        (let s = (if vflag s \<noteq> 0 then print (Trying3 tck tms tdo) s else s);
             s = id_shift_loop w tck tms tdo (id_trial_init w tck tms s)
         in if toggle_count s > 7
            then fold (id_tdi_trial w tck tms tdo) (tested_tdi tck tms tdo) s
            else s))
   \<and> jtag_finder_bypass_method w s =
       (let s' = fold (\<lambda>(tck, tms, tdo).
                         fold (bypass_trial w count_ones tck tms tdo) (tested_tdi tck tms tdo))
                   tested_triples (s\<lparr>retval := 0\<rparr>)
        in (retval s', s'))
   \<and> swd_finder w s =
       (let s' = fold (\<lambda>(swclk, swdio). swd_trial w swclk swdio) tested_pairs (s\<lparr>retval := 0\<rparr>)
        in (retval s', s'))"
proof (intro conjI)
  show "\<forall>(tck, tms, tdo) \<in> set tested_triples.
       distinct [tck, tms, tdo] \<and> usable tck \<and> usable tms \<and> usable tdo
       \<and> (\<forall>tdi \<in> set (tested_tdi tck tms tdo). distinct [tck, tms, tdo, tdi] \<and> usable tdi)"
    by (auto simp: tested_triples_ok tested_tdi_eq tdi_candidates_ok)
  show "\<forall>(swclk, swdio) \<in> set tested_pairs. swclk \<noteq> swdio \<and> usable swclk \<and> usable swdio"
    by (auto simp: tested_pairs_eq pair_candidates_ok)
  show "jtag_finder_id_method w s =
       (let s' = fold (\<lambda>(tck, tms, tdo). id_trial w tck tms tdo) tested_triples (s\<lparr>retval := 0\<rparr>)
        in (retval s', s'))"
    unfolding jtag_finder_id_method_def triple_loops_tested ..
  show "\<forall>tck tms tdo s. id_trial w tck tms tdo s =
        (let s = (if vflag s \<noteq> 0 then print (Trying3 tck tms tdo) s else s);
             s = id_shift_loop w tck tms tdo (id_trial_init w tck tms s)
         in if toggle_count s > 7
            then fold (id_tdi_trial w tck tms tdo) (tested_tdi tck tms tdo) s
            else s)"
    unfolding id_trial_def tdi_loop_tested by (simp add: Let_def)
  show "jtag_finder_bypass_method w s =
       (let s' = fold (\<lambda>(tck, tms, tdo).
                         fold (bypass_trial w count_ones tck tms tdo) (tested_tdi tck tms tdo))
                   tested_triples (s\<lparr>retval := 0\<rparr>)
        in (retval s', s'))"
    unfolding jtag_finder_bypass_method_def bypass_search_def triple_loops_tested tdi_loop_tested ..
  show "swd_finder w s =
       (let s' = fold (\<lambda>(swclk, swdio). swd_trial w swclk swdio) tested_pairs (s\<lparr>retval := 0\<rparr>)
        in (retval s', s'))"
    unfolding swd_finder_def pair_loops_tested ..
qed

theorem tested_assignments_valid_witness:
  "(0, 3, 4) \<in> set tested_triples \<and> 5 \<in> set (tested_tdi 0 3 4) \<and> (0, 3) \<in> set tested_pairs
   \<and> distinct [0, 3, 4, 5 :: pin] \<and> usable 0 \<and> usable 3 \<and> usable 4 \<and> usable 5"
proof -
  have a: "(0, 3, 4) \<in> set tested_triples"
    by (simp add: tested_triples_ok usable_def PINS_def)
  have b: "5 \<in> set (tested_tdi 0 3 4)"
    by (simp add: tested_tdi_eq tdi_candidates_ok usable_def PINS_def)
  have c: "(0, 3) \<in> set tested_pairs"
    by (simp add: tested_pairs_eq pair_candidates_ok usable_def PINS_def)
  from tested_assignments_valid [THEN conjunct1, rule_format, OF a] b
  have "distinct [0, 3, 4, 5 :: pin] \<and> usable 0 \<and> usable 3 \<and> usable 4 \<and> usable 5"
    by auto
  with a b c show ?thesis by simp
qed

lemma tdi_candidates_length:
  assumes "usable tck" "usable tms" "usable tdo" "tck \<noteq> tms" "tck \<noteq> tdo" "tms \<noteq> tdo"
  shows "length (tdi_candidates tck tms tdo) = 11"
proof -
  have d: "distinct (tdi_candidates tck tms tdo)" unfolding tdi_candidates_def by simp
  have "set (tdi_candidates tck tms tdo) = {0..<16} - {tck, tms, tdo, 1, 2}"
    unfolding tdi_candidates_def PINS_def by auto
  moreover have "card ({0..<16::nat} - {tck, tms, tdo, 1, 2}) = 11"
    using assms unfolding usable_def PINS_def
    by (subst card_Diff_subset) auto
  ultimately show ?thesis using distinct_card [OF d] by simp
qed

subsection \<open>Fields that the pin operations leave alone\<close>

lemma upd_fields [simp]:
  "console (upd_P1DIR w f s) = console s" "retval (upd_P1DIR w f s) = retval s"
  "vflag (upd_P1DIR w f s) = vflag s" "toggle_count (upd_P1DIR w f s) = toggle_count s"
  "tc (upd_P1DIR w f s) = tc s" "idval (upd_P1DIR w f s) = idval s"
  "byte_val (upd_P1DIR w f s) = byte_val s" "byte_prev (upd_P1DIR w f s) = byte_prev s"
  "cnt1 (upd_P1DIR w f s) = cnt1 s"
  "console (upd_P1REN w f s) = console s" "retval (upd_P1REN w f s) = retval s"
  "vflag (upd_P1REN w f s) = vflag s" "toggle_count (upd_P1REN w f s) = toggle_count s"
  "tc (upd_P1REN w f s) = tc s" "idval (upd_P1REN w f s) = idval s"
  "byte_val (upd_P1REN w f s) = byte_val s" "byte_prev (upd_P1REN w f s) = byte_prev s"
  "cnt1 (upd_P1REN w f s) = cnt1 s"
  "console (upd_P1OUT w f s) = console s" "retval (upd_P1OUT w f s) = retval s"
  "vflag (upd_P1OUT w f s) = vflag s" "toggle_count (upd_P1OUT w f s) = toggle_count s"
  "tc (upd_P1OUT w f s) = tc s" "idval (upd_P1OUT w f s) = idval s"
  "byte_val (upd_P1OUT w f s) = byte_val s" "byte_prev (upd_P1OUT w f s) = byte_prev s"
  "cnt1 (upd_P1OUT w f s) = cnt1 s"
  "console (upd_P2DIR w f s) = console s" "retval (upd_P2DIR w f s) = retval s"
  "vflag (upd_P2DIR w f s) = vflag s" "toggle_count (upd_P2DIR w f s) = toggle_count s"
  "tc (upd_P2DIR w f s) = tc s" "idval (upd_P2DIR w f s) = idval s"
  "byte_val (upd_P2DIR w f s) = byte_val s" "byte_prev (upd_P2DIR w f s) = byte_prev s"
  "cnt1 (upd_P2DIR w f s) = cnt1 s"
  "console (upd_P2REN w f s) = console s" "retval (upd_P2REN w f s) = retval s"
  "vflag (upd_P2REN w f s) = vflag s" "toggle_count (upd_P2REN w f s) = toggle_count s"
  "tc (upd_P2REN w f s) = tc s" "idval (upd_P2REN w f s) = idval s"
  "byte_val (upd_P2REN w f s) = byte_val s" "byte_prev (upd_P2REN w f s) = byte_prev s"
  "cnt1 (upd_P2REN w f s) = cnt1 s"
  "console (upd_P2OUT w f s) = console s" "retval (upd_P2OUT w f s) = retval s"
  "vflag (upd_P2OUT w f s) = vflag s" "toggle_count (upd_P2OUT w f s) = toggle_count s"
  "tc (upd_P2OUT w f s) = tc s" "idval (upd_P2OUT w f s) = idval s"
  "byte_val (upd_P2OUT w f s) = byte_val s" "byte_prev (upd_P2OUT w f s) = byte_prev s"
  "cnt1 (upd_P2OUT w f s) = cnt1 s"
  by (simp_all add: upd_defs Let_def)

lemma set_pin_fields [simp]:
  "console (set_pin w p s) = console s" "retval (set_pin w p s) = retval s"
  "vflag (set_pin w p s) = vflag s" "toggle_count (set_pin w p s) = toggle_count s"
  "tc (set_pin w p s) = tc s" "idval (set_pin w p s) = idval s"
  "byte_val (set_pin w p s) = byte_val s" "byte_prev (set_pin w p s) = byte_prev s"
  "cnt1 (set_pin w p s) = cnt1 s"
  by (simp_all add: set_pin_def)

lemma clr_pin_fields [simp]:
  "console (clr_pin w p s) = console s" "retval (clr_pin w p s) = retval s"
  "vflag (clr_pin w p s) = vflag s" "toggle_count (clr_pin w p s) = toggle_count s"
  "tc (clr_pin w p s) = tc s" "idval (clr_pin w p s) = idval s"
  "byte_val (clr_pin w p s) = byte_val s" "byte_prev (clr_pin w p s) = byte_prev s"
  "cnt1 (clr_pin w p s) = cnt1 s"
  by (simp_all add: clr_pin_def)

lemma set_pin_to_output_fields [simp]:
  "console (set_pin_to_output w p s) = console s" "retval (set_pin_to_output w p s) = retval s"
  "vflag (set_pin_to_output w p s) = vflag s"
  "toggle_count (set_pin_to_output w p s) = toggle_count s"
  "tc (set_pin_to_output w p s) = tc s" "idval (set_pin_to_output w p s) = idval s"
  "byte_val (set_pin_to_output w p s) = byte_val s"
  "byte_prev (set_pin_to_output w p s) = byte_prev s"
  "cnt1 (set_pin_to_output w p s) = cnt1 s"
  by (simp_all add: set_pin_to_output_def output_P1_def output_P2_def Let_def)

lemma set_pin_to_input_fields [simp]:
  "console (set_pin_to_input w p s) = console s" "retval (set_pin_to_input w p s) = retval s"
  "vflag (set_pin_to_input w p s) = vflag s"
  "toggle_count (set_pin_to_input w p s) = toggle_count s"
  "tc (set_pin_to_input w p s) = tc s" "idval (set_pin_to_input w p s) = idval s"
  "byte_val (set_pin_to_input w p s) = byte_val s"
  "byte_prev (set_pin_to_input w p s) = byte_prev s"
  "cnt1 (set_pin_to_input w p s) = cnt1 s"
  by (simp_all add: set_pin_to_input_def input_P1_def input_P2_def Let_def)

lemma set_all_pins_to_inputs_fields [simp]:
  "console (set_all_pins_to_inputs w s) = console s"
  "retval (set_all_pins_to_inputs w s) = retval s"
  "vflag (set_all_pins_to_inputs w s) = vflag s"
  "toggle_count (set_all_pins_to_inputs w s) = toggle_count s"
  "tc (set_all_pins_to_inputs w s) = tc s" "idval (set_all_pins_to_inputs w s) = idval s"
  "byte_val (set_all_pins_to_inputs w s) = byte_val s"
  "byte_prev (set_all_pins_to_inputs w s) = byte_prev s"
  "cnt1 (set_all_pins_to_inputs w s) = cnt1 s"
  by (simp_all add: set_all_pins_to_inputs_def Let_def)

lemma sample_fields [simp]:
  "console (sample s) = console s" "retval (sample s) = retval s" "vflag (sample s) = vflag s"
  "tc (sample s) = tc s" "cnt1 (sample s) = cnt1 s" "ports (sample s) = ports s"
  "target (sample s) = target s" "byte_val (sample s) = byte_val s"
  "byte_prev (sample s) = byte_val s"
  by (simp_all add: sample_def Let_def)

lemma fold_keeps:
  assumes "\<And>x s. g (f x s) = g s"
  shows "g (fold f xs s) = g s"
  by (induction xs arbitrary: s) (simp_all add: assms)

subsection \<open>Console and return value of the trials\<close>

lemma fold_keeps_console [simp]:
  "(\<And>x s. console (f x s) = console s) \<Longrightarrow> console (fold f xs s) = console s"
  by (rule fold_keeps)

lemma fold_keeps_retval [simp]:
  "(\<And>x s. retval (f x s) = retval s) \<Longrightarrow> retval (fold f xs s) = retval s"
  by (rule fold_keeps)

lemma fold_keeps_vflag [simp]:
  "(\<And>x s. vflag (f x s) = vflag s) \<Longrightarrow> vflag (fold f xs s) = vflag s"
  by (rule fold_keeps)

lemma fold_keeps_sampler [simp]:
  "(\<And>x s. byte_prev (f x s) = byte_prev s) \<Longrightarrow> byte_prev (fold f xs s) = byte_prev s"
  "(\<And>x s. toggle_count (f x s) = toggle_count s)
     \<Longrightarrow> toggle_count (fold f xs s) = toggle_count s"
  "(\<And>x s. idval (f x s) = idval s) \<Longrightarrow> idval (fold f xs s) = idval s"
  "(\<And>x s. tc (f x s) = tc s) \<Longrightarrow> tc (fold f xs s) = tc s"
  by (rule fold_keeps, assumption)+

lemma print_fields [simp]:
  "console (print l s) = console s @ [l]" "retval (print l s) = retval s"
  "vflag (print l s) = vflag s" "toggle_count (print l s) = toggle_count s"
  "tc (print l s) = tc s" "idval (print l s) = idval s" "cnt1 (print l s) = cnt1 s"
  "byte_val (print l s) = byte_val s" "byte_prev (print l s) = byte_prev s"
  "ports (print l s) = ports s" "target (print l s) = target s"
  by (simp_all add: print_def)

lemma pulse_fields [simp]:
  "console (pulse w p s) = console s" "retval (pulse w p s) = retval s"
  "vflag (pulse w p s) = vflag s" "toggle_count (pulse w p s) = toggle_count s"
  "tc (pulse w p s) = tc s" "idval (pulse w p s) = idval s"
  "byte_val (pulse w p s) = byte_val s" "byte_prev (pulse w p s) = byte_prev s"
  "cnt1 (pulse w p s) = cnt1 s"
  by (simp_all add: pulse_def)

lemma id_trial_init_log [simp]:
  "console (id_trial_init w tck tms s) = console s"
  "retval (id_trial_init w tck tms s) = retval s"
  "vflag (id_trial_init w tck tms s) = vflag s"
  by (simp_all add: id_trial_init_def Let_def)

lemma id_shift_loop_log [simp]:
  "console (id_shift_loop w tck tms tdo s) = console s"
  "retval (id_shift_loop w tck tms tdo s) = retval s"
  "vflag (id_shift_loop w tck tms tdo s) = vflag s"
  unfolding id_shift_loop_def
  by (subst fold_keeps; simp add: id_shift_step_def Let_def)+

lemma id_flush_log [simp]:
  "console (id_flush w tck s) = console s"
  "retval (id_flush w tck s) = retval s"
  "vflag (id_flush w tck s) = vflag s"
  "tc (id_flush w tck s) = tc s"
  "idval (id_flush w tck s) = idval s"
  "byte_prev (id_flush w tck s) = byte_prev s"
  unfolding id_flush_def
  by (subst fold_keeps; simp)+

lemma id_inject_log [simp]:
  "console (id_inject w tck tdo tdi s) = console s"
  "retval (id_inject w tck tdo tdi s) = retval s"
  "vflag (id_inject w tck tdo tdi s) = vflag s"
  "idval (id_inject w tck tdo tdi s) = idval s"
  unfolding id_inject_def
  by (subst fold_keeps; simp add: id_inject_step_def Let_def)+

lemma id_tdi_measure_log [simp]:
  "console (id_tdi_measure w tck tms tdo tdi s)
     = console s @ (if vflag s \<noteq> 0 then [Trying4 tck tms tdo tdi] else [])"
  "retval (id_tdi_measure w tck tms tdo tdi s) = retval s"
  "vflag (id_tdi_measure w tck tms tdo tdi s) = vflag s"
  by (simp_all add: id_tdi_measure_def Let_def)

lemma bypass_init_log [simp]:
  "console (bypass_init w tck tms tdi s) = console s"
  "retval (bypass_init w tck tms tdi s) = retval s"
  "vflag (bypass_init w tck tms tdi s) = vflag s"
  by (simp_all add: bypass_init_def Let_def)

lemma bypass_reset_log [simp]:
  "console (bypass_reset w tck tms s) = console s"
  "retval (bypass_reset w tck tms s) = retval s"
  "vflag (bypass_reset w tck tms s) = vflag s"
  unfolding bypass_reset_def
  by (subst fold_keeps; simp add: bypass_reset_step_def Let_def)+

lemma bypass_flush_log [simp]:
  "console (bypass_flush w tck s) = console s"
  "retval (bypass_flush w tck s) = retval s"
  "vflag (bypass_flush w tck s) = vflag s"
  unfolding bypass_flush_def
  by (subst fold_keeps; simp)+

lemma bypass_shift_log [simp]:
  "console (bypass_shift w tck tms tdo tdi s) = console s"
  "retval (bypass_shift w tck tms tdo tdi s) = retval s"
  "vflag (bypass_shift w tck tms tdo tdi s) = vflag s"
  unfolding bypass_shift_def
  by (subst fold_keeps; simp add: bypass_shift_step_def Let_def)+

lemma bypass_measure_log [simp]:
  "console (bypass_measure w count tck tms tdo tdi s)
     = console s @ (if vflag s \<noteq> 0 then [Trying4 tck tms tdo tdi] else [])"
  "retval (bypass_measure w count tck tms tdo tdi s) = retval s"
  "vflag (bypass_measure w count tck tms tdo tdi s) = vflag s"
  by (simp_all add: bypass_measure_def Let_def)

lemma send_fixed_log [simp]:
  "console (send_fixed_swd_pattern w c d v n s) = console s"
  "retval (send_fixed_swd_pattern w c d v n s) = retval s"
  "vflag (send_fixed_swd_pattern w c d v n s) = vflag s"
  by (simp_all add: send_fixed_swd_pattern_def Let_def)

lemma swd_connect_log [simp]:
  "console (swd_connect w c d s) = console s"
  "retval (swd_connect w c d s) = retval s"
  "vflag (swd_connect w c d s) = vflag s"
  by (simp_all add: swd_connect_def Let_def)

lemma swd_read_log [simp]:
  "console (fold (swd_read_step w c d) xs s) = console s"
  "retval (fold (swd_read_step w c d) xs s) = retval s"
  "vflag (fold (swd_read_step w c d) xs s) = vflag s"
  by (subst fold_keeps; simp add: swd_read_step_def Let_def)+

lemma swd_measure_log [simp]:
  "console (swd_measure w c d s)
     = console s @ (if vflag s \<noteq> 0 then [TryingSwd c d] else [])"
  "retval (swd_measure w c d s) = retval s"
  "vflag (swd_measure w c d s) = vflag s"
  by (simp_all add: swd_measure_def Let_def)

lemma search_inv_step:
  assumes "search_inv found c0 s"
    and "console s' = console s @ out'"
    and "\<forall>l \<in> set out'. is_trying l \<or> found l"
    and "retval s' = (if \<exists>l \<in> set out'. found l then 1 else retval s)"
  shows "search_inv found c0 s'"
proof -
  from assms(1) obtain out where o: "console s = c0 @ out"
    "\<forall>l \<in> set out. is_trying l \<or> found l"
    "retval s = 1 \<longleftrightarrow> (\<exists>l \<in> set out. found l)" "retval s = 0 \<or> retval s = 1"
    unfolding search_inv_def by blast
  have "console s' = c0 @ (out @ out')" using o(1) assms(2) by simp
  moreover have "\<forall>l \<in> set (out @ out'). is_trying l \<or> found l" using o(2) assms(3) by auto
  moreover have "retval s' = 1 \<longleftrightarrow> (\<exists>l \<in> set (out @ out'). found l)"
    using o(3) assms(4) by auto
  moreover have "retval s' = 0 \<or> retval s' = 1" using o(4) assms(4) by auto
  ultimately show ?thesis unfolding search_inv_def by blast
qed

lemma search_inv_fold:
  assumes "\<And>x s. search_inv found c0 s \<Longrightarrow> search_inv found c0 (f x s)"
    and "search_inv found c0 s"
  shows "search_inv found c0 (fold f xs s)"
  using assms(2) by (induction xs arbitrary: s) (simp_all add: assms(1))

lemma search_inv_start: "search_inv found (console s) (s\<lparr>retval := 0\<rparr>)"
  unfolding search_inv_def by (rule exI [of _ "[]"]) simp

lemma search_inv_printed:
  assumes "search_inv found (console s) s'"
  shows "(retval s' = 1 \<longleftrightarrow> (\<exists>l \<in> set (printed s s'). found l))
       \<and> (retval s' = 0 \<or> retval s' = 1)
       \<and> (\<forall>l \<in> set (printed s s'). is_trying l \<or> found l)
       \<and> console s' = console s @ printed s s'"
  using assms unfolding search_inv_def printed_def by auto

lemma id_tdi_trial_inv:
  "search_inv is_found_id c0 s \<Longrightarrow> search_inv is_found_id c0 (id_tdi_trial w tck tms tdo tdi s)"
  by (erule search_inv_step
        [where out' = "(if vflag s \<noteq> 0 then [Trying4 tck tms tdo tdi] else [])
           @ (if tc (id_tdi_measure w tck tms tdo tdi s) > 29
                 \<and> tc (id_tdi_measure w tck tms tdo tdi s) < 35
              then [FoundJtagId tck tms tdo tdi (idval (id_tdi_measure w tck tms tdo tdi s))]
              else [])"])
     (auto simp add: id_tdi_trial_def Let_def)

lemma id_trial_inv:
  assumes "search_inv is_found_id c0 s"
  shows "search_inv is_found_id c0 (id_trial w tck tms tdo s)"
proof -
  let ?s1 = "if vflag s \<noteq> 0 then print (Trying3 tck tms tdo) s else s"
  let ?s2 = "id_shift_loop w tck tms tdo (id_trial_init w tck tms ?s1)"
  have "search_inv is_found_id c0 ?s2"
    by (rule search_inv_step [OF assms, where out' = "if vflag s \<noteq> 0 then [Trying3 tck tms tdo] else []"])
       simp_all
  have "search_inv is_found_id c0 (fold (id_tdi_trial w tck tms tdo) xs t)"
    if "search_inv is_found_id c0 t" for xs t
    using id_tdi_trial_inv that by (rule search_inv_fold)
  with \<open>search_inv is_found_id c0 ?s2\<close>
  have "search_inv is_found_id c0 (tdi_loop (id_tdi_trial w tck tms tdo) tck tms tdo ?s2)"
    unfolding tdi_loop_fold by blast
  with \<open>search_inv is_found_id c0 ?s2\<close> show ?thesis
    by (simp add: id_trial_def Let_def)
qed

lemma bypass_trial_inv:
  "search_inv is_found_bypass c0 s
   \<Longrightarrow> search_inv is_found_bypass c0 (bypass_trial w count tck tms tdo tdi s)"
  by (erule search_inv_step
        [where out' = "(if vflag s \<noteq> 0 then [Trying4 tck tms tdo tdi] else [])
           @ (if toggle_count (bypass_measure w count tck tms tdo tdi s) > 13
                 \<and> toggle_count (bypass_measure w count tck tms tdo tdi s) < 19
              then [FoundBypass tck tms tdo tdi (idval (bypass_measure w count tck tms tdo tdi s))]
              else [])"])
     (auto simp add: bypass_trial_def Let_def)

lemma swd_trial_inv:
  "search_inv is_found_swd c0 s \<Longrightarrow> search_inv is_found_swd c0 (swd_trial w swclk swdio s)"
  by (erule search_inv_step
        [where out' = "(if vflag s \<noteq> 0 then [TryingSwd swclk swdio] else [])
           @ (if toggle_count (swd_measure w swclk swdio s) > 7
              then [FoundSwd swclk swdio (idval (swd_measure w swclk swdio s))]
              else [])"])
     (auto simp add: swd_trial_def Let_def)

lemma id_finder_inv:
  "search_inv is_found_id (console s) (snd (jtag_finder_id_method w s))"
  unfolding jtag_finder_id_method_def Let_def snd_conv triple_loops_fold
  by (rule search_inv_fold [OF id_trial_inv search_inv_start])

lemma bypass_finder_inv:
  "search_inv is_found_bypass (console s) (snd (bypass_search w count s))"
  unfolding bypass_search_def Let_def snd_conv triple_loops_fold tdi_loop_fold
  by (rule search_inv_fold [OF search_inv_fold [OF bypass_trial_inv] search_inv_start])

lemma swd_finder_inv:
  "search_inv is_found_swd (console s) (snd (swd_finder w s))"
  unfolding swd_finder_def Let_def snd_conv pair_loops_fold
  by (rule search_inv_fold [OF swd_trial_inv search_inv_start])

lemma finder_fst:
  "fst (jtag_finder_id_method w s) = retval (snd (jtag_finder_id_method w s))"
  "fst (bypass_search w count s) = retval (snd (bypass_search w count s))"
  "fst (swd_finder w s) = retval (snd (swd_finder w s))"
  by (simp_all add: jtag_finder_id_method_def bypass_search_def swd_finder_def Let_def)


lemma found_kinds:
  "is_found_id l \<Longrightarrow> \<not> is_trying l \<and> \<not> is_found_bypass l \<and> \<not> is_found_swd l"
  "is_found_bypass l \<Longrightarrow> \<not> is_trying l \<and> \<not> is_found_id l \<and> \<not> is_found_swd l"
  "is_found_swd l \<Longrightarrow> \<not> is_trying l \<and> \<not> is_found_id l \<and> \<not> is_found_bypass l"
  by (cases l; simp)+

lemma finder_printed:
  "console (snd (jtag_finder_id_method w s))
     = console s @ printed s (snd (jtag_finder_id_method w s))"
  "\<forall>l \<in> set (printed s (snd (jtag_finder_id_method w s))). is_trying l \<or> is_found_id l"
  "fst (jtag_finder_id_method w s) = 1
     \<longleftrightarrow> (\<exists>l \<in> set (printed s (snd (jtag_finder_id_method w s))). is_found_id l)"
  "fst (jtag_finder_id_method w s) = 0 \<or> fst (jtag_finder_id_method w s) = 1"
  "console (snd (bypass_search w count s)) = console s @ printed s (snd (bypass_search w count s))"
  "\<forall>l \<in> set (printed s (snd (bypass_search w count s))). is_trying l \<or> is_found_bypass l"
  "fst (bypass_search w count s) = 1
     \<longleftrightarrow> (\<exists>l \<in> set (printed s (snd (bypass_search w count s))). is_found_bypass l)"
  "fst (bypass_search w count s) = 0 \<or> fst (bypass_search w count s) = 1"
  "console (snd (swd_finder w s)) = console s @ printed s (snd (swd_finder w s))"
  "\<forall>l \<in> set (printed s (snd (swd_finder w s))). is_trying l \<or> is_found_swd l"
  "fst (swd_finder w s) = 1 \<longleftrightarrow> (\<exists>l \<in> set (printed s (snd (swd_finder w s))). is_found_swd l)"
  "fst (swd_finder w s) = 0 \<or> fst (swd_finder w s) = 1"
  using search_inv_printed [OF id_finder_inv [where s = s and w = w]]
    search_inv_printed [OF bypass_finder_inv [where s = s and w = w and count = count]]
    search_inv_printed [OF swd_finder_inv [where s = s and w = w]]
  unfolding finder_fst by blast+

lemma run_finders_printed:
  fixes w :: "'t world" and s :: "'t mcu"
  defines "s' \<equiv> run_finders w s"
  shows "not_found_id \<in> set (printed s s') \<longleftrightarrow> \<not> (\<exists>l \<in> set (printed s s'). is_found_id l)"
    and "not_found_bypass \<in> set (printed s s') \<longleftrightarrow> \<not> (\<exists>l \<in> set (printed s s'). is_found_bypass l)"
    and "not_found_swd \<in> set (printed s s') \<longleftrightarrow> \<not> (\<exists>l \<in> set (printed s s'). is_found_swd l)"
    and "console s' = console s @ printed s s'"
proof -
  define s1 where "s1 = print (Text ''  Start of JTAG Finder using JTAG ID method.'') s"
  define r1 where "r1 = fst (jtag_finder_id_method w s1)"
  define o1 where "o1 = printed s1 (snd (jtag_finder_id_method w s1))"
  define m1 where "m1 = (if r1 = 0 then print not_found_id (snd (jtag_finder_id_method w s1))
         else snd (jtag_finder_id_method w s1))"
  define s2 where "s2 = print (Text ''  Start of JTAG Finder using Bypass method.'')
     (print (Text ''  End of JTAG Finder using JTAG ID method.'') m1)"
  define r2 where "r2 = fst (jtag_finder_bypass_method w s2)"
  define o2 where "o2 = printed s2 (snd (jtag_finder_bypass_method w s2))"
  define m2 where "m2 = (if r2 = 0 then print not_found_bypass (snd (jtag_finder_bypass_method w s2))
         else snd (jtag_finder_bypass_method w s2))"
  define s3 where "s3 = print (Text ''  Start of SWD Finder.'')
     (print (Text ''  End of JTAG Finder using Bypass method.'') m2)"
  define r3 where "r3 = fst (swd_finder w s3)"
  define o3 where "o3 = printed s3 (snd (swd_finder w s3))"
  define m3 where "m3 = (if r3 = 0 then print not_found_swd (snd (swd_finder w s3))
         else snd (swd_finder w s3))"
  have s': "s' = print (Text ''  End of SWD Finder.'') m3"
    unfolding s'_def run_finders_def s1_def r1_def m1_def s2_def r2_def m2_def s3_def r3_def m3_def
    by (simp add: Let_def case_prod_unfold)
  note f1 = finder_printed(1-4) [where w = w and s = s1, folded o1_def r1_def]
  note f2 = finder_printed(5-8) [where w = w and count = count_ones and s = s2,
      folded jtag_finder_bypass_method_def, folded o2_def r2_def]
  note f3 = finder_printed(9-12) [where w = w and s = s3, folded o3_def r3_def]
  have c1: "console m1 = console s @ [Text ''  Start of JTAG Finder using JTAG ID method.''] @ o1
        @ (if r1 = 0 then [not_found_id] else [])"
    unfolding m1_def by (simp add: f1(1)) (simp add: s1_def)
  have c2: "console m2 = console m1 @ [Text ''  End of JTAG Finder using JTAG ID method.'',
           Text ''  Start of JTAG Finder using Bypass method.''] @ o2
        @ (if r2 = 0 then [not_found_bypass] else [])"
    unfolding m2_def by (simp add: f2(1)) (simp add: s2_def)
  have c3: "console m3 = console m2 @ [Text ''  End of JTAG Finder using Bypass method.'',
           Text ''  Start of SWD Finder.''] @ o3
        @ (if r3 = 0 then [not_found_swd] else [])"
    unfolding m3_def by (simp add: f3(1)) (simp add: s3_def)
  have c: "console s' = console s @
      ([Text ''  Start of JTAG Finder using JTAG ID method.''] @ o1
        @ (if r1 = 0 then [not_found_id] else [])
        @ [Text ''  End of JTAG Finder using JTAG ID method.'',
           Text ''  Start of JTAG Finder using Bypass method.''] @ o2
        @ (if r2 = 0 then [not_found_bypass] else [])
        @ [Text ''  End of JTAG Finder using Bypass method.'', Text ''  Start of SWD Finder.'']
        @ o3 @ (if r3 = 0 then [not_found_swd] else []) @ [Text ''  End of SWD Finder.''])"
    unfolding s' by (simp add: c3 c2 c1)
  then have p: "printed s s' =
      ([Text ''  Start of JTAG Finder using JTAG ID method.''] @ o1
        @ (if r1 = 0 then [not_found_id] else [])
        @ [Text ''  End of JTAG Finder using JTAG ID method.'',
           Text ''  Start of JTAG Finder using Bypass method.''] @ o2
        @ (if r2 = 0 then [not_found_bypass] else [])
        @ [Text ''  End of JTAG Finder using Bypass method.'', Text ''  Start of SWD Finder.'']
        @ o3 @ (if r3 = 0 then [not_found_swd] else []) @ [Text ''  End of SWD Finder.''])"
    unfolding printed_def by simp
  show "console s' = console s @ printed s s'" unfolding p by (rule c)
  have texts: "Text x \<notin> set o1" "Text x \<notin> set o2" "Text x \<notin> set o3" for x
    using f1(2) f2(2) f3(2) by auto
  have no1: "\<not> is_found_bypass l \<and> \<not> is_found_swd l" if "l \<in> set o1" for l
    using f1(2) that by (cases l) auto
  have no2: "\<not> is_found_id l \<and> \<not> is_found_swd l" if "l \<in> set o2" for l
    using f2(2) that by (cases l) auto
  have no3: "\<not> is_found_id l \<and> \<not> is_found_bypass l" if "l \<in> set o3" for l
    using f3(2) that by (cases l) auto
  have one: "(1 :: u8) \<noteq> 0" by simp
  show "not_found_id \<in> set (printed s s') \<longleftrightarrow> \<not> (\<exists>l \<in> set (printed s s'). is_found_id l)"
    unfolding p using f1(3,4) texts no2 no3 one
    by (auto simp: not_found_id_def not_found_bypass_def not_found_swd_def)
  show "not_found_bypass \<in> set (printed s s')
      \<longleftrightarrow> \<not> (\<exists>l \<in> set (printed s s'). is_found_bypass l)"
    unfolding p using f2(3,4) texts no1 no3 one
    by (auto simp: not_found_id_def not_found_bypass_def not_found_swd_def)
  show "not_found_swd \<in> set (printed s s') \<longleftrightarrow> \<not> (\<exists>l \<in> set (printed s s'). is_found_swd l)"
    unfolding p using f3(3,4) texts no1 no2 one
    by (auto simp: not_found_id_def not_found_bypass_def not_found_swd_def)
qed


lemma setup_sketch_printed:
  "\<exists>s'. setup_sketch w (Some b) s = Some s'
     \<and> (not_found_id \<in> set (printed s s') \<longleftrightarrow> \<not> (\<exists>l \<in> set (printed s s'). is_found_id l))
     \<and> (not_found_bypass \<in> set (printed s s')
          \<longleftrightarrow> \<not> (\<exists>l \<in> set (printed s s'). is_found_bypass l))
     \<and> (not_found_swd \<in> set (printed s s') \<longleftrightarrow> \<not> (\<exists>l \<in> set (printed s s'). is_found_swd l))"
proof -
  define pre where "pre = setup_prompt b s"
  define rf where "rf = run_finders w pre"
  define s' where "s' = print (Text ''Done testing.'') rf"
  have e: "setup_sketch w (Some b) s = Some s'"
    by (simp add: setup_sketch_def s'_def rf_def pre_def Let_def)
  obtain bl where bl: "console pre = console s @ bl"
    "\<forall>l \<in> set bl. \<not> is_found_id l \<and> \<not> is_found_bypass l \<and> \<not> is_found_swd l
        \<and> l \<noteq> not_found_id \<and> l \<noteq> not_found_bypass \<and> l \<noteq> not_found_swd"
  proof
    show "console pre = console s @
      ([Text ''----------------------------------------------------------------------'',
        Text ''------------------- LaunchPad JTAG/SWD Finder v1.0 -------------------'',
        Text ''----------------------------------------------------------------------'',
        Text ''The test results below use the numbers 0 thru 15 as follows to specify'',
        Text ''any MSP430G2553 pins that are connected to JTAG or SWD signals:'',
        Text ''  0:P1.0   1:n/a    2:n/a    3:Pl.3   4:P1.4   5:P1.5   6:P1.6   7:P1.7'',
        Text ''  8:P2.0   9:P2.1  10:P2.2  11:P2.3  12:P2.4  13:P2.5  14:P2.6  15:P2.7'',
        Text ''Press 'v' for verbose mode or any other key for non-verbose mode.'',
        if b = 0x76 \<or> b = 0x56 then Text ''  Verbose mode on.'' else Text ''  Verbose mode off.'',
        Text ''Begin testing...''])"
      by (simp add: pre_def setup_prompt_def Let_def)
    show "\<forall>l \<in> set [Text ''----------------------------------------------------------------------'',
        Text ''------------------- LaunchPad JTAG/SWD Finder v1.0 -------------------'',
        Text ''----------------------------------------------------------------------'',
        Text ''The test results below use the numbers 0 thru 15 as follows to specify'',
        Text ''any MSP430G2553 pins that are connected to JTAG or SWD signals:'',
        Text ''  0:P1.0   1:n/a    2:n/a    3:Pl.3   4:P1.4   5:P1.5   6:P1.6   7:P1.7'',
        Text ''  8:P2.0   9:P2.1  10:P2.2  11:P2.3  12:P2.4  13:P2.5  14:P2.6  15:P2.7'',
        Text ''Press 'v' for verbose mode or any other key for non-verbose mode.'',
        if b = 0x76 \<or> b = 0x56 then Text ''  Verbose mode on.'' else Text ''  Verbose mode off.'',
        Text ''Begin testing...''].
       \<not> is_found_id l \<and> \<not> is_found_bypass l \<and> \<not> is_found_swd l
        \<and> l \<noteq> not_found_id \<and> l \<noteq> not_found_bypass \<and> l \<noteq> not_found_swd"
      by (simp add: not_found_id_def not_found_bypass_def not_found_swd_def)
  qed
  note r = run_finders_printed [where w = w and s = pre, folded rf_def]
  have p: "printed s s' = bl @ printed pre rf @ [Text ''Done testing.'']"
    unfolding printed_def [of s] s'_def by (simp add: r(4) bl(1))
  have "not_found_id \<in> set (printed s s') \<longleftrightarrow> \<not> (\<exists>l \<in> set (printed s s'). is_found_id l)"
    unfolding p using r(1) bl(2) by (auto simp: not_found_id_def)
  moreover have "not_found_bypass \<in> set (printed s s')
      \<longleftrightarrow> \<not> (\<exists>l \<in> set (printed s s'). is_found_bypass l)"
    unfolding p using r(2) bl(2) by (auto simp: not_found_bypass_def)
  moreover have "not_found_swd \<in> set (printed s s')
      \<longleftrightarrow> \<not> (\<exists>l \<in> set (printed s s'). is_found_swd l)"
    unfolding p using r(3) bl(2) by (auto simp: not_found_swd_def)
  ultimately show ?thesis using e by blast
qed

subsection \<open>Nothing connected\<close>

lemma read_pin_quiet [simp]: "read_pin quiet p s = 0"
  by (simp add: read_pin_def quiet_def)

lemma fold_inv:
  assumes "\<And>x s. Q s \<Longrightarrow> Q (f x s)" and "Q s"
  shows "Q (fold f xs s)"
  using assms(2) by (induction xs arbitrary: s) (simp_all add: assms(1))

lemma sample_still:
  "byte_prev s = 0 \<Longrightarrow> toggle_count (sample (s\<lparr>byte_val := 0\<rparr>)) = toggle_count s"
  by (simp add: sample_def Let_def)

lemma id_shift_loop_quiet: "toggle_count (id_shift_loop quiet tck tms tdo (id_trial_init quiet tck tms s)) = 0"
proof -
  have "byte_prev t = 0 \<and> toggle_count t = 0" if "t = id_shift_loop quiet tck tms tdo (id_trial_init quiet tck tms s)" for t
    unfolding that id_shift_loop_def
    by (rule fold_inv) (auto simp add: id_shift_step_def Let_def sample_still id_trial_init_def)
  then show ?thesis by simp
qed

lemma id_trial_quiet: "retval (id_trial quiet tck tms tdo s) = retval s"
proof -
  have "\<not> toggle_count (id_shift_loop quiet tck tms tdo (id_trial_init quiet tck tms t)) > 7" for t
    by (simp add: id_shift_loop_quiet)
  then show ?thesis by (simp add: id_trial_def Let_def)
qed

lemma id_finder_quiet: "fst (jtag_finder_id_method quiet s) = 0"
  unfolding jtag_finder_id_method_def Let_def fst_conv triple_loops_fold
  by (subst fold_keeps_retval) (simp_all add: id_trial_quiet)

lemma bypass_measure_quiet: "toggle_count (bypass_measure quiet count tck tms tdo tdi s) = 0"
proof -
  have i: "byte_prev (bypass_init quiet tck tms tdi t) = 0 \<and> toggle_count (bypass_init quiet tck tms tdi t) = 0" for t
    by (simp add: bypass_init_def Let_def)
  have r: "byte_prev (bypass_reset quiet tck tms t) = 0 \<and> toggle_count (bypass_reset quiet tck tms t) = 0"
    if "byte_prev t = 0 \<and> toggle_count t = 0" for t
    unfolding bypass_reset_def using _ that
    by (rule fold_inv) (simp add: bypass_reset_step_def Let_def)
  have f: "byte_prev (bypass_flush quiet tck t) = 0 \<and> toggle_count (bypass_flush quiet tck t) = 0"
    if "byte_prev t = 0 \<and> toggle_count t = 0" for t
    unfolding bypass_flush_def using _ that
    by (rule fold_inv) simp
  have h: "byte_prev (bypass_shift quiet tck tms tdo tdi t) = 0 \<and> toggle_count (bypass_shift quiet tck tms tdo tdi t) = 0"
    if "byte_prev t = 0 \<and> toggle_count t = 0" for t
    unfolding bypass_shift_def
    by (rule fold_inv) (auto simp add: bypass_shift_step_def Let_def sample_still that)
  show ?thesis
    by (simp add: bypass_measure_def Let_def h [OF f [OF r [OF i]]])
qed

lemma bypass_trial_quiet: "retval (bypass_trial quiet count tck tms tdo tdi s) = retval s"
  by (simp add: bypass_trial_def Let_def bypass_measure_quiet)

lemma bypass_finder_quiet: "fst (bypass_search quiet count s) = 0"
  unfolding bypass_search_def Let_def fst_conv triple_loops_fold tdi_loop_fold
  by (subst fold_keeps_retval) (simp_all add: bypass_trial_quiet)

lemma send_fixed_sampler [simp]:
  "byte_prev (send_fixed_swd_pattern w c d v n s) = byte_prev s"
  "toggle_count (send_fixed_swd_pattern w c d v n s) = toggle_count s"
  "idval (send_fixed_swd_pattern w c d v n s) = idval s"
  by (simp_all add: send_fixed_swd_pattern_def Let_def)

lemma swd_measure_quiet: "toggle_count (swd_measure quiet c d s) = 0"
proof -
  have h: "byte_prev (fold (swd_read_step quiet c d) xs t) = 0 \<and> toggle_count (fold (swd_read_step quiet c d) xs t) = 0"
    if "byte_prev t = 0 \<and> toggle_count t = 0" for t xs
    using _ that
    by (rule fold_inv) (auto simp add: swd_read_step_def Let_def sample_still)
  show ?thesis
    by (simp add: swd_measure_def Let_def swd_connect_def h)
qed

lemma swd_finder_quiet: "fst (swd_finder quiet s) = 0"
  unfolding swd_finder_def Let_def fst_conv pair_loops_fold
  by (subst fold_keeps_retval) (simp_all add: swd_trial_def Let_def swd_measure_quiet)


subsection \<open>The count of one bits is never read\<close>

lemma upd_cnt1:
  "upd_P1DIR w f (s\<lparr>cnt1 := c\<rparr>) = (upd_P1DIR w f s)\<lparr>cnt1 := c\<rparr>"
  "upd_P1REN w f (s\<lparr>cnt1 := c\<rparr>) = (upd_P1REN w f s)\<lparr>cnt1 := c\<rparr>"
  "upd_P1OUT w f (s\<lparr>cnt1 := c\<rparr>) = (upd_P1OUT w f s)\<lparr>cnt1 := c\<rparr>"
  "upd_P2DIR w f (s\<lparr>cnt1 := c\<rparr>) = (upd_P2DIR w f s)\<lparr>cnt1 := c\<rparr>"
  "upd_P2REN w f (s\<lparr>cnt1 := c\<rparr>) = (upd_P2REN w f s)\<lparr>cnt1 := c\<rparr>"
  "upd_P2OUT w f (s\<lparr>cnt1 := c\<rparr>) = (upd_P2OUT w f s)\<lparr>cnt1 := c\<rparr>"
  by (simp_all add: upd_defs Let_def)

lemma pin_cnt1:
  "set_pin w p (s\<lparr>cnt1 := c\<rparr>) = (set_pin w p s)\<lparr>cnt1 := c\<rparr>"
  "clr_pin w p (s\<lparr>cnt1 := c\<rparr>) = (clr_pin w p s)\<lparr>cnt1 := c\<rparr>"
  "set_pin_to_output w p (s\<lparr>cnt1 := c\<rparr>) = (set_pin_to_output w p s)\<lparr>cnt1 := c\<rparr>"
  "set_all_pins_to_inputs w (s\<lparr>cnt1 := c\<rparr>) = (set_all_pins_to_inputs w s)\<lparr>cnt1 := c\<rparr>"
  "read_pin w p (s\<lparr>cnt1 := c\<rparr>) = read_pin w p s"
  "print l (s\<lparr>cnt1 := c\<rparr>) = (print l s)\<lparr>cnt1 := c\<rparr>"
  by (simp_all add: set_pin_def clr_pin_def set_pin_to_output_def output_P1_def output_P2_def
        set_all_pins_to_inputs_def read_pin_def print_def upd_cnt1 Let_def)

lemma cnt1_outward:
  "s\<lparr>cnt1 := c, byte_prev := b\<rparr> = s\<lparr>byte_prev := b, cnt1 := c\<rparr>"
  "s\<lparr>cnt1 := c, byte_val := b\<rparr> = s\<lparr>byte_val := b, cnt1 := c\<rparr>"
  "s\<lparr>cnt1 := c, toggle_count := b\<rparr> = s\<lparr>toggle_count := b, cnt1 := c\<rparr>"
  "s\<lparr>cnt1 := c, idval := v\<rparr> = s\<lparr>idval := v, cnt1 := c\<rparr>"
  "s\<lparr>cnt1 := c, retval := b\<rparr> = s\<lparr>retval := b, cnt1 := c\<rparr>"
  by simp_all

lemma sample_cnt1: "sample (s\<lparr>cnt1 := c\<rparr>) = (sample s)\<lparr>cnt1 := c\<rparr>"
  by (simp add: sample_def Let_def cnt1_outward)

lemma fold_cnt1:
  assumes "\<And>x s. f x (s\<lparr>cnt1 := c\<rparr>) = (f x s)\<lparr>cnt1 := c\<rparr>"
  shows "fold f xs (s\<lparr>cnt1 := c\<rparr>) = (fold f xs s)\<lparr>cnt1 := c\<rparr>"
  by (induction xs arbitrary: s) (simp_all add: assms)

lemma bypass_phases_cnt1:
  "bypass_init w tck tms tdi (s\<lparr>cnt1 := c\<rparr>) = (bypass_init w tck tms tdi s)\<lparr>cnt1 := c\<rparr>"
  "bypass_reset w tck tms (s\<lparr>cnt1 := c\<rparr>) = (bypass_reset w tck tms s)\<lparr>cnt1 := c\<rparr>"
  "bypass_flush w tck (s\<lparr>cnt1 := c\<rparr>) = (bypass_flush w tck s)\<lparr>cnt1 := c\<rparr>"
  "bypass_shift w tck tms tdo tdi (s\<lparr>cnt1 := c\<rparr>)
     = (bypass_shift w tck tms tdo tdi s)\<lparr>cnt1 := c\<rparr>"
proof -
  show "bypass_init w tck tms tdi (s\<lparr>cnt1 := c\<rparr>) = (bypass_init w tck tms tdi s)\<lparr>cnt1 := c\<rparr>"
    by (simp add: bypass_init_def Let_def pin_cnt1 cnt1_outward)
  show "bypass_reset w tck tms (s\<lparr>cnt1 := c\<rparr>) = (bypass_reset w tck tms s)\<lparr>cnt1 := c\<rparr>"
    unfolding bypass_reset_def
    by (rule fold_cnt1) (simp add: bypass_reset_step_def Let_def pin_cnt1)
  show "bypass_flush w tck (s\<lparr>cnt1 := c\<rparr>) = (bypass_flush w tck s)\<lparr>cnt1 := c\<rparr>"
    unfolding bypass_flush_def
    by (rule fold_cnt1) (simp add: pulse_def pin_cnt1)
  show "bypass_shift w tck tms tdo tdi (s\<lparr>cnt1 := c\<rparr>)
     = (bypass_shift w tck tms tdo tdi s)\<lparr>cnt1 := c\<rparr>"
    unfolding bypass_shift_def pin_cnt1
    by (rule fold_cnt1) (simp add: bypass_shift_step_def Let_def pin_cnt1 sample_cnt1 cnt1_outward)
qed

lemma bypass_measure_count:
  "bypass_measure w f tck tms tdo tdi s
     = (bypass_measure w g tck tms tdo tdi s)
         \<lparr>cnt1 := f (idval (bypass_measure w g tck tms tdo tdi s))\<rparr>"
  by (simp add: bypass_measure_def Let_def)

lemma bypass_measure_cnt1:
  "bypass_measure w f tck tms tdo tdi (s\<lparr>cnt1 := c\<rparr>) = bypass_measure w f tck tms tdo tdi s"
  by (simp add: bypass_measure_def Let_def pin_cnt1 bypass_phases_cnt1)

lemma bypass_trial_count:
  "bypass_trial w f tck tms tdo tdi s
     = (bypass_trial w g tck tms tdo tdi s)
         \<lparr>cnt1 := f (idval (bypass_measure w g tck tms tdo tdi s))\<rparr>"
  unfolding bypass_trial_def Let_def bypass_measure_count [of w f tck tms tdo tdi s g]
  by (simp add: pin_cnt1 cnt1_outward)

lemma bypass_trial_cnt1:
  "bypass_trial w f tck tms tdo tdi (s\<lparr>cnt1 := c\<rparr>) = bypass_trial w f tck tms tdo tdi s"
  by (simp add: bypass_trial_def bypass_measure_cnt1)

lemma bypass_trial_alike:
  assumes "s\<lparr>cnt1 := 0\<rparr> = t\<lparr>cnt1 := 0\<rparr>"
  shows "(bypass_trial w f tck tms tdo tdi s)\<lparr>cnt1 := 0\<rparr>
       = (bypass_trial w g tck tms tdo tdi t)\<lparr>cnt1 := 0\<rparr>"
proof -
  have "bypass_trial w f tck tms tdo tdi s = bypass_trial w f tck tms tdo tdi (s\<lparr>cnt1 := 0\<rparr>)"
    by (simp add: bypass_trial_cnt1)
  also have "\<dots> = bypass_trial w f tck tms tdo tdi t"
    unfolding assms by (simp add: bypass_trial_cnt1)
  finally show ?thesis
    by (subst (asm) bypass_trial_count [of w f _ _ _ _ _ g]) simp
qed

lemma fold_alike:
  assumes "\<And>x s t. s\<lparr>cnt1 := 0\<rparr> = t\<lparr>cnt1 := 0\<rparr> \<Longrightarrow> (f x s)\<lparr>cnt1 := 0\<rparr> = (g x t)\<lparr>cnt1 := 0\<rparr>"
    and "(s :: 't mcu)\<lparr>cnt1 := 0\<rparr> = t\<lparr>cnt1 := 0\<rparr>"
  shows "(fold f xs s)\<lparr>cnt1 := 0\<rparr> = (fold g xs t)\<lparr>cnt1 := 0\<rparr>"
  using assms(2) by (induction xs arbitrary: s t) (simp_all add: assms(1))

lemma bypass_search_alike:
  "(snd (bypass_search w f s))\<lparr>cnt1 := 0\<rparr> = (snd (bypass_search w g s))\<lparr>cnt1 := 0\<rparr>"
  unfolding bypass_search_def Let_def snd_conv triple_loops_fold tdi_loop_fold
  by (intro fold_alike bypass_trial_alike refl)

lemma alike_retval:
  "(s :: 't mcu)\<lparr>cnt1 := 0\<rparr> = t\<lparr>cnt1 := 0\<rparr> \<Longrightarrow> retval s = retval t \<and> console s = console t
     \<and> ports s = ports t \<and> target s = target t"
  by (metis mcu.select_convs mcu.surjective mcu.update_convs(8))


text \<open>
  C10: the bypass finder run with any function \<open>count\<close> in place of \<^verbatim>\<open>count_ones\<close> at
  line 800 returns the same value and ends in the same state, console included, in every
  field but \<^verbatim>\<open>cnt1\<close>; \<^verbatim>\<open>cnt1\<close> does hold the count of one bits after each
  measurement; and a trial sets the return value to 1 and prints its report exactly when
  the toggle count lies strictly between 13 and 19.
\<close>

theorem count_ones_unused:
  "fst (bypass_search w count s) = fst (jtag_finder_bypass_method w s)
   \<and> (snd (bypass_search w count s))\<lparr>cnt1 := 0\<rparr>
       = (snd (jtag_finder_bypass_method w s))\<lparr>cnt1 := 0\<rparr>
   \<and> cnt1 (bypass_measure w count_ones tck tms tdo tdi s)
       = count_ones (idval (bypass_measure w count_ones tck tms tdo tdi s))
   \<and> retval (bypass_trial w count_ones tck tms tdo tdi s)
       = (if toggle_count (bypass_measure w count_ones tck tms tdo tdi s) > 13
             \<and> toggle_count (bypass_measure w count_ones tck tms tdo tdi s) < 19
          then 1 else retval s)
   \<and> printed s (bypass_trial w count_ones tck tms tdo tdi s)
       = (if vflag s \<noteq> 0 then [Trying4 tck tms tdo tdi] else [])
         @ (if toggle_count (bypass_measure w count_ones tck tms tdo tdi s) > 13
               \<and> toggle_count (bypass_measure w count_ones tck tms tdo tdi s) < 19
            then [FoundBypass tck tms tdo tdi
                    (idval (bypass_measure w count_ones tck tms tdo tdi s))]
            else [])"
proof (intro conjI)
  have a: "(snd (bypass_search w count s))\<lparr>cnt1 := 0\<rparr>
       = (snd (bypass_search w count_ones s))\<lparr>cnt1 := 0\<rparr>"
    by (rule bypass_search_alike)
  then show "(snd (bypass_search w count s))\<lparr>cnt1 := 0\<rparr>
       = (snd (jtag_finder_bypass_method w s))\<lparr>cnt1 := 0\<rparr>"
    by (simp add: jtag_finder_bypass_method_def)
  show "fst (bypass_search w count s) = fst (jtag_finder_bypass_method w s)"
    using alike_retval [OF a] by (simp add: jtag_finder_bypass_method_def finder_fst)
  show "cnt1 (bypass_measure w count_ones tck tms tdo tdi s)
       = count_ones (idval (bypass_measure w count_ones tck tms tdo tdi s))"
    by (simp add: bypass_measure_def Let_def)
  show "retval (bypass_trial w count_ones tck tms tdo tdi s)
       = (if toggle_count (bypass_measure w count_ones tck tms tdo tdi s) > 13
             \<and> toggle_count (bypass_measure w count_ones tck tms tdo tdi s) < 19
          then 1 else retval s)"
    by (simp add: bypass_trial_def Let_def)
  show "printed s (bypass_trial w count_ones tck tms tdo tdi s)
       = (if vflag s \<noteq> 0 then [Trying4 tck tms tdo tdi] else [])
         @ (if toggle_count (bypass_measure w count_ones tck tms tdo tdi s) > 13
               \<and> toggle_count (bypass_measure w count_ones tck tms tdo tdi s) < 19
            then [FoundBypass tck tms tdo tdi
                    (idval (bypass_measure w count_ones tck tms tdo tdi s))]
            else [])"
    by (simp add: bypass_trial_def Let_def printed_def)
qed

theorem count_ones_unused_witness:
  "fst (bypass_search quiet (\<lambda>v. 0) (power_on ()))
     = fst (jtag_finder_bypass_method quiet (power_on ()))
   \<and> (snd (bypass_search quiet (\<lambda>v. 0) (power_on ())))\<lparr>cnt1 := 0\<rparr>
       = (snd (jtag_finder_bypass_method quiet (power_on ())))\<lparr>cnt1 := 0\<rparr>"
  using count_ones_unused [of quiet "\<lambda>v. 0" "power_on ()"] by blast

subsection \<open>Pins one at a time\<close>

lemma pin_mask_simps:
  "pin_mask 0 = BIT0" "pin_mask 3 = BIT3" "pin_mask 4 = BIT4" "pin_mask 5 = BIT5"
  "pin_mask 6 = BIT6" "pin_mask 7 = BIT7" "pin_mask 8 = BIT0" "pin_mask 9 = BIT1"
  "pin_mask 10 = BIT2" "pin_mask 11 = BIT3" "pin_mask 12 = BIT4" "pin_mask 13 = BIT5"
  "pin_mask 14 = BIT6" "pin_mask 15 = BIT7"
  by (simp_all add: pin_mask_def BIT_defs)

lemma set_pin_ports:
  assumes "usable p"
  shows "ports (set_pin w p s) = with_out p True (ports s)"
    and "target (set_pin w p s) = react w (with_out p True (ports s)) (target s)"
  using usable_cases [OF assms]
  by (elim disjE; simp add: set_pin_def with_out_def upd_defs Let_def pin_mask_simps)+

lemma clr_pin_ports:
  assumes "usable p"
  shows "ports (clr_pin w p s) = with_out p False (ports s)"
    and "target (clr_pin w p s) = react w (with_out p False (ports s)) (target s)"
  using usable_cases [OF assms]
  by (elim disjE; simp add: clr_pin_def with_out_def upd_defs Let_def pin_mask_simps)+

lemma bit_pin_mask: "bit (pin_mask p) n \<longleftrightarrow> n = p mod 8"
  by (auto simp add: pin_mask_def bit_simps)

lemma mask_absorb:
  "(x OR m) AND NOT m = x AND NOT m" "(x AND NOT m) OR m = x OR m" for x m :: u8
  by (rule bit_eqI, auto simp add: bit_simps)+

lemma mask_same:
  "bit x (p mod 8) \<Longrightarrow> x OR pin_mask p = x"
  "\<not> bit x (p mod 8) \<Longrightarrow> x AND NOT (pin_mask p) = x" for x :: u8
  by (rule bit_eqI, auto simp add: bit_simps bit_pin_mask)+

lemma port2_index: "\<not> p < 8 \<Longrightarrow> p < 16 \<Longrightarrow> p mod 8 = p - 8" for p :: nat
  by (simp add: mod_if)

lemma bit_beyond: "bit (x :: u8) n \<Longrightarrow> n < 8"
  using bit_imp_le_length [of x n] by simp

lemma out_bit_with_out:
  assumes "p < 16"
  shows "out_bit (with_out p b ps) q = (if q = p then b else out_bit ps q)"
proof (cases "p < 8")
  case True
  then show ?thesis
    by (auto simp add: out_bit_def with_out_def bit_simps bit_pin_mask dest: bit_beyond)
next
  case False
  then have m: "p mod 8 = p - 8" using assms by (rule port2_index)
  have "q - 8 = p - 8 \<longleftrightarrow> q = p" if "\<not> q < 8" using that False by auto
  with False m show ?thesis
    by (auto simp add: out_bit_def with_out_def bit_simps bit_pin_mask dest: bit_beyond)
qed

lemma dir_ren_with_out [simp]:
  "dir_bit (with_out p b ps) q = dir_bit ps q" "ren_bit (with_out p b ps) q = ren_bit ps q"
  by (simp_all add: dir_bit_def ren_bit_def with_out_def)

lemma with_out_same:
  assumes "p < 16" "out_bit ps p = b"
  shows "with_out p b ps = ps"
proof (cases "p < 8")
  case True
  with assms show ?thesis by (auto simp add: with_out_def out_bit_def mask_same)
next
  case False
  then have m: "p - 8 = p mod 8" using assms(1) by (simp add: port2_index)
  with False assms show ?thesis by (auto simp add: with_out_def out_bit_def mask_same)
qed

lemma with_out_twice: "with_out p b (with_out p a ps) = with_out p b ps"
  by (simp add: with_out_def mask_absorb)

lemma usable_lt: "usable p \<Longrightarrow> p < 16"
  by (simp add: usable_def PINS_def)

lemma read_pin_level:
  assumes "usable p"
  shows "read_pin w p s = (if p < 8 then port1_in w (target s) else port2_in w (target s)) AND pin_mask p"
  using usable_cases [OF assms]
  by (elim disjE; simp add: read_pin_def pin_mask_simps)

lemma pin_mask_nonzero: "pin_mask p \<noteq> 0"
  by (simp add: pin_mask_def)

lemma level_byte_eq [simp]: "level_byte p a = level_byte p b \<longleftrightarrow> a = b"
  by (auto simp add: level_byte_def pin_mask_nonzero)

lemma level_byte_zero [simp]: "level_byte p a = 0 \<longleftrightarrow> \<not> a" "level_byte p False = 0"
  by (auto simp add: level_byte_def pin_mask_nonzero)

lemma sample_level:
  assumes "byte_prev s = level_byte p prev"
  shows "sample (s\<lparr>byte_val := level_byte p b\<rparr>)
       = s\<lparr>byte_val := level_byte p b, byte_prev := level_byte p b,
           toggle_count := toggle_count s + (if b \<noteq> prev then 1 else 0),
           idval := shift_in b (idval s)\<rparr>"
  using assms by (simp add: sample_def Let_def shift_in_def)

lemma output_P1_out:
  "P1OUT (ports (output_P1 w b s)) = P1OUT (ports s) AND NOT b"
  "P2OUT (ports (output_P1 w b s)) = P2OUT (ports s)"
  "P1OUT (ports (output_P2 w b s)) = P1OUT (ports s)"
  "P2OUT (ports (output_P2 w b s)) = P2OUT (ports s) AND NOT b"
  by (simp_all add: output_P1_def output_P2_def upd_defs Let_def)

lemma set_pin_to_output_out:
  assumes "usable p"
  shows "out_bit (ports (set_pin_to_output w p s)) q = (q \<noteq> p \<and> out_bit (ports s) q)"
proof -
  have "out_bit (ports (set_pin_to_output w p s)) q = out_bit (with_out p False (ports s)) q"
    using usable_cases [OF assms]
    by (elim disjE;
        simp add: set_pin_to_output_def output_P1_out out_bit_def with_out_def pin_mask_simps)
  then show ?thesis using usable_lt [OF assms] by (simp add: out_bit_with_out)
qed


lemma set_pin_drive:
  assumes "usable p"
  shows "set_pin w p s
       = s\<lparr>ports := with_out p True (ports s),
           target := react w (with_out p True (ports s)) (target s)\<rparr>"
  using usable_cases [OF assms]
  by (elim disjE; simp add: set_pin_def with_out_def upd_defs Let_def pin_mask_simps)

lemma clr_pin_drive:
  assumes "usable p"
  shows "clr_pin w p s
       = s\<lparr>ports := with_out p False (ports s),
           target := react w (with_out p False (ports s)) (target s)\<rparr>"
  using usable_cases [OF assms]
  by (elim disjE; simp add: clr_pin_def with_out_def upd_defs Let_def pin_mask_simps)

subsection \<open>The logic analyser\<close>

lemma probe_world_sel [simp]:
  "react (probe_world c d r) = probe_react c d"
  "port1_in (probe_world c d r) t = (if r (length (seen t)) then 0xFF else 0x00)"
  "port2_in (probe_world c d r) t = (if r (length (seen t)) then 0xFF else 0x00)"
  by (simp_all add: probe_world_def)

lemma read_pin_probe:
  assumes "usable p"
  shows "read_pin (probe_world c d r) p s = level_byte p (r (length (seen (target s))))"
proof -
  have a: "(0xFF :: u8) = - 1" by simp
  have "0xFF AND pin_mask p = pin_mask p"
    unfolding a by (rule and.left_neutral)
  then show ?thesis by (simp add: read_pin_level [OF assms] level_byte_def)
qed

lemma probe_pulse:
  assumes "usable c" "c \<noteq> d" "\<not> out_bit (ports s) c" "\<not> clk_was (target s)"
  shows "pulse (probe_world c d r) c s
       = s\<lparr>target := \<lparr>clk_was = False, seen = seen (target s) @ [out_bit (ports s) d]\<rparr>\<rparr>"
  using assms usable_lt [OF assms(1)]
  by (simp add: pulse_def set_pin_drive clr_pin_drive probe_react_def out_bit_with_out
        with_out_twice with_out_same)

lemma probe_data:
  assumes "usable p" "p \<noteq> c" "\<not> out_bit (ports s) c" "\<not> clk_was (target s)"
  shows "set_pin (probe_world c d r) p s
       = s\<lparr>ports := with_out p True (ports s),
           target := \<lparr>clk_was = False, seen = seen (target s)\<rparr>\<rparr>"
    and "clr_pin (probe_world c d r) p s
       = s\<lparr>ports := with_out p False (ports s),
           target := \<lparr>clk_was = False, seen = seen (target s)\<rparr>\<rparr>"
  using assms usable_lt [OF assms(1)]
  by (simp_all add: set_pin_drive clr_pin_drive probe_react_def out_bit_with_out)

lemma toggles_snoc:
  "toggles prev (xs @ [b]) = toggles prev xs + (if b \<noteq> last (prev # xs) then 1 else 0)"
  by (induction xs arbitrary: prev) simp_all

lemma toggles_le: "toggles prev xs \<le> length xs"
  by (induction xs arbitrary: prev) (simp_all add: le_SucI)

lemma bit_top: "bit (0x80000000 :: u32) i \<longleftrightarrow> i = 31"
proof -
  have "(0x80000000 :: u32) = 2 ^ 31" by simp
  then show ?thesis by (simp only: bit_exp_iff) auto
qed

lemma bit_shift_in:
  "bit (shift_in b v) i \<longleftrightarrow> (if i = 31 then b else i < 31 \<and> bit v (Suc i))"
proof -
  have "bit (drop_bit 1 v) i \<longleftrightarrow> i < 31 \<and> bit v (Suc i)"
    using bit_imp_le_length [of v "Suc i"] by (auto simp add: bit_simps)
  then show ?thesis
    unfolding shift_in_def using bit_top [of i]
    by (simp only: bit_or_iff bit_and_iff bit_not_iff split: if_splits) auto
qed

lemma captured_shift_in:
  assumes "k < 32"
  shows "captured (Suc k) (shift_in b v) = captured k v @ [b]"
proof -
  have "[32 - Suc k..<32] = [31 - k..<31] @ [31]"
    using assms by (simp add: upt_rec [of 31 32] flip: upt_Suc_append)
  moreover have "map (bit (shift_in b v)) [31 - k..<31] = map (bit v) [32 - k..<32]"
  proof -
    have "32 - k = Suc (31 - k)" using assms by simp
    then have "map (bit v) [32 - k..<32] = map (bit v \<circ> Suc) [31 - k..<31]"
      using map_Suc_upt [of "31 - k" 31] by (simp flip: map_map)
    then show ?thesis by (simp add: bit_shift_in comp_def)
  qed
  ultimately show ?thesis by (simp add: captured_def bit_shift_in)
qed

lemma captured_fold:
  "length bs \<le> 32 \<Longrightarrow> captured (length bs) (fold shift_in bs v) = bs"
proof (induction bs arbitrary: v rule: rev_induct)
  case Nil
  then show ?case by (simp add: captured_def)
next
  case (snoc b bs)
  then show ?case by (simp add: captured_shift_in)
qed

lemma id_trial_init_state:
  assumes "usable tck" "usable tms"
  shows "\<not> out_bit (ports (id_trial_init w tck tms s)) tck"
    and "\<not> out_bit (ports (id_trial_init w tck tms s)) tms"
    and "byte_prev (id_trial_init w tck tms s) = 0"
    and "toggle_count (id_trial_init w tck tms s) = 0"
    and "idval (id_trial_init w tck tms s) = 0"
  using assms by (simp_all add: id_trial_init_def Let_def set_pin_to_output_out)

subsection \<open>The bypass target\<close>

lemma bypass_world_sel [simp]:
  "react (bypass_world c i) = bypass_react c i"
  "port1_in (bypass_world c i) t = (if shown t then 0xFF else 0x00)"
  "port2_in (bypass_world c i) t = (if shown t then 0xFF else 0x00)"
  by (simp_all add: bypass_world_def)

lemma read_pin_bypass:
  assumes "usable p"
  shows "read_pin (bypass_world c i) p s = level_byte p (shown (target s))"
proof -
  have a: "(0xFF :: u8) = - 1" by simp
  have "0xFF AND pin_mask p = pin_mask p"
    unfolding a by (rule and.left_neutral)
  then show ?thesis by (simp add: read_pin_level [OF assms] level_byte_def)
qed

lemma tap_idle: "\<not> tck_was t \<Longrightarrow> t\<lparr>tck_was := False\<rparr> = t"
  by (cases t) simp

lemma bypass_pulse:
  assumes "usable c" "c \<noteq> i" "\<not> out_bit (ports s) c" "\<not> tck_was (target s)"
  shows "pulse (bypass_world c i) c s
       = s\<lparr>target := \<lparr>tck_was = False, held = out_bit (ports s) i, shown = held (target s)\<rparr>\<rparr>"
  using assms usable_lt [OF assms(1)]
  by (simp add: pulse_def set_pin_drive clr_pin_drive bypass_react_def out_bit_with_out
        with_out_twice with_out_same)

lemma bypass_data:
  assumes "usable p" "p \<noteq> c" "\<not> out_bit (ports s) c" "\<not> tck_was (target s)"
  shows "set_pin (bypass_world c i) p s = s\<lparr>ports := with_out p True (ports s)\<rparr>"
    and "clr_pin (bypass_world c i) p s = s\<lparr>ports := with_out p False (ports s)\<rparr>"
  using assms usable_lt [OF assms(1)]
  by (simp_all add: set_pin_drive clr_pin_drive bypass_react_def out_bit_with_out tap_idle)

lemma bypass_reset_tap:
  assumes "usable c" "usable m" "usable i" "c \<noteq> m" "c \<noteq> i" "m \<noteq> i"
    "\<not> out_bit (ports s) c" "\<not> out_bit (ports s) i" "\<not> tck_was (target s)"
  shows "bypass_reset (bypass_world c i) c m s
       = s\<lparr>ports := with_out m False (ports s),
           target := \<lparr>tck_was = False, held = False, shown = False\<rparr>\<rparr>"
proof -
  have u: "[0..<9] = [0, 1, 2, 3, 4, 5, 6, 7, 8 :: nat]" by (simp add: upt_rec)
  show ?thesis
    unfolding bypass_reset_def u using assms usable_lt [OF assms(2)]
    by (simp add: bypass_reset_step_def Let_def bypass_data bypass_pulse [unfolded pulse_def]
          out_bit_with_out with_out_twice)
qed

lemma bypass_flush_tap:
  assumes "usable c" "c \<noteq> i" "\<not> out_bit (ports s) c" "\<not> out_bit (ports s) i"
    "target s = \<lparr>tck_was = False, held = False, shown = False\<rparr>"
  shows "fold (\<lambda>j. pulse (bypass_world c i) c) xs s = s"
proof -
  have "pulse (bypass_world c i) c s = s"
    using assms by (simp add: bypass_pulse)
  then show ?thesis by (induction xs) simp_all
qed


lemma bypass_shift_one:
  assumes "usable c" "usable q" "usable i" "c \<noteq> i"
    "\<not> out_bit (ports s) c" "\<not> tck_was (target s)" "byte_prev s = level_byte q prev"
  shows "bypass_shift_step (bypass_world c i) c q i j s
       = s\<lparr>ports := with_out i (j mod 4 = 0) (ports s),
           target := \<lparr>tck_was = False, held = (j mod 4 = 0), shown = held (target s)\<rparr>,
           byte_val := level_byte q (held (target s)),
           byte_prev := level_byte q (held (target s)),
           toggle_count := toggle_count s + (if held (target s) \<noteq> prev then 1 else 0),
           idval := shift_in (held (target s)) (idval s)\<rparr>"
  using assms usable_lt [OF assms(3)]
  by (simp add: bypass_shift_step_def Let_def bypass_data bypass_pulse [unfolded pulse_def]
        out_bit_with_out read_pin_bypass sample_level [where prev = prev])

text \<open>What the measurement loop reads in its first \<open>n\<close> cycles when the target held \<open>h\<close> before.\<close>

lemma bypass_shift_samples:
  assumes "usable c" "usable q" "usable i" "c \<noteq> i"
    "\<not> out_bit (ports s) c" "\<not> tck_was (target s)" "byte_prev s = level_byte q prev"
  shows "\<not> out_bit (ports (fold (bypass_shift_step (bypass_world c i) c q i) [0..<n] s)) c
       \<and> \<not> tck_was (target (fold (bypass_shift_step (bypass_world c i) c q i) [0..<n] s))
       \<and> held (target (fold (bypass_shift_step (bypass_world c i) c q i) [0..<n] s))
           = (if n = 0 then held (target s) else (n - 1) mod 4 = 0)
       \<and> byte_prev (fold (bypass_shift_step (bypass_world c i) c q i) [0..<n] s)
           = level_byte q (last (prev # map (\<lambda>j. if j = 0 then held (target s)
                                                  else (j - 1) mod 4 = 0) [0..<n]))
       \<and> toggle_count (fold (bypass_shift_step (bypass_world c i) c q i) [0..<n] s)
           = toggle_count s + of_nat (toggles prev (map (\<lambda>j. if j = 0 then held (target s)
                                                  else (j - 1) mod 4 = 0) [0..<n]))
       \<and> idval (fold (bypass_shift_step (bypass_world c i) c q i) [0..<n] s)
           = fold shift_in (map (\<lambda>j. if j = 0 then held (target s)
                                       else (j - 1) mod 4 = 0) [0..<n]) (idval s)"
proof (induction n)
  case 0
  then show ?case using assms(5,6,7) by simp
next
  case (Suc n)
  let ?t = "fold (bypass_shift_step (bypass_world c i) c q i) [0..<n] s"
  let ?f = "\<lambda>j. if j = 0 then held (target s) else (j - 1) mod 4 = 0"
  note ih = Suc.IH
  have st: "bypass_shift_step (bypass_world c i) c q i n ?t
       = ?t\<lparr>ports := with_out i (n mod 4 = 0) (ports ?t),
           target := \<lparr>tck_was = False, held = (n mod 4 = 0), shown = held (target ?t)\<rparr>,
           byte_val := level_byte q (held (target ?t)),
           byte_prev := level_byte q (held (target ?t)),
           toggle_count := toggle_count ?t
              + (if held (target ?t) \<noteq> last (prev # map ?f [0..<n]) then 1 else 0),
           idval := shift_in (held (target ?t)) (idval ?t)\<rparr>"
    using assms(1-4) ih by (intro bypass_shift_one) simp_all
  have f: "fold (bypass_shift_step (bypass_world c i) c q i) [0..<Suc n] s
      = bypass_shift_step (bypass_world c i) c q i n ?t"
    by simp
  have h: "held (target ?t) = ?f n" using ih by simp
  have l: "last (prev # map ?f [0..<Suc n]) = ?f n" by simp
  have g: "toggles prev (map ?f [0..<Suc n])
      = toggles prev (map ?f [0..<n]) + (if ?f n \<noteq> last (prev # map ?f [0..<n]) then 1 else 0)"
    using toggles_snoc [of prev "map ?f [0..<n]" "?f n"] by simp
  have k: "fold shift_in (map ?f [0..<Suc n]) (idval s)
      = shift_in (?f n) (fold shift_in (map ?f [0..<n]) (idval s))"
    by simp
  have o: "\<not> out_bit (with_out i (n mod 4 = 0) (ports ?t)) c"
    using ih assms(4) usable_lt [OF assms(3)] by (simp add: out_bit_with_out)
  show ?case
    unfolding f st l g k using ih o by (simp add: h)
qed


lemma tck_was_react [simp]: "tck_was (bypass_react c i ps t) = out_bit ps c"
  by (simp add: bypass_react_def)

lemma bypass_init_state:
  assumes "usable c" "usable m" "usable i" "c \<noteq> m" "c \<noteq> i" "m \<noteq> i"
  shows "\<not> out_bit (ports (bypass_init (bypass_world c i) c m i s)) c"
    and "\<not> out_bit (ports (bypass_init (bypass_world c i) c m i s)) i"
    and "\<not> tck_was (target (bypass_init (bypass_world c i) c m i s))"
    and "byte_prev (bypass_init (bypass_world c i) c m i s) = 0"
    and "toggle_count (bypass_init (bypass_world c i) c m i s) = 0"
    and "idval (bypass_init (bypass_world c i) c m i s) = 0"
  using assms usable_lt [OF assms(1)] usable_lt [OF assms(2)] usable_lt [OF assms(3)]
  by (simp_all add: bypass_init_def Let_def set_pin_ports clr_pin_ports out_bit_with_out
        set_pin_to_output_out)

lemma bypass_measure_tap:
  assumes "usable c" "usable m" "usable q" "usable i" "c \<noteq> m" "c \<noteq> i" "m \<noteq> i"
  shows "toggle_count (bypass_measure (bypass_world c i) count c m q i s) = 16"
    and "idval (bypass_measure (bypass_world c i) count c m q i s) = 0x11111111"
proof -
  let ?W = "bypass_world c i"
  let ?s0 = "if vflag s \<noteq> 0 then print (Trying4 c m q i) s else s"
  let ?s1 = "bypass_init ?W c m i ?s0"
  let ?f = "\<lambda>j :: nat. if j = 0 then False else (j - 1) mod 4 = 0"
  note i = bypass_init_state [OF assms(1,2,4,5,6,7), of ?s0]
  define s2 where "s2 = ?s1\<lparr>ports := with_out m False (ports ?s1),
           target := \<lparr>tck_was = False, held = False, shown = False\<rparr>\<rparr>"
  have r: "bypass_reset ?W c m ?s1 = s2"
    unfolding s2_def by (rule bypass_reset_tap [OF assms(1,2,4,5,6,7) i(1,2,3)])
  have p2: "\<not> out_bit (ports s2) c" "\<not> out_bit (ports s2) i"
    "target s2 = \<lparr>tck_was = False, held = False, shown = False\<rparr>"
    "byte_prev s2 = level_byte q False" "toggle_count s2 = 0" "idval s2 = 0"
    using i assms(5,7) usable_lt [OF assms(2)] by (simp_all add: s2_def out_bit_with_out)
  have fl: "bypass_flush ?W c s2 = s2"
    unfolding bypass_flush_def by (rule bypass_flush_tap [OF assms(1,6) p2(1,2,3)])
  have cm: "clr_pin ?W m s2 = s2"
  proof -
    have "with_out m False (ports s2) = ports s2"
      unfolding s2_def by (simp add: with_out_twice)
    then show ?thesis
      using bypass_data(2) [OF assms(2) assms(5) [symmetric] p2(1), of i] p2(3) by simp
  qed
  have tg: "toggles False (map ?f [0..<33]) = 16" by code_simp
  have iv: "fold shift_in (map ?f [0..<33]) 0 = 0x11111111" by code_simp
  have h2: "held (target s2) = False" "\<not> tck_was (target s2)" using p2(3) by simp_all
  note * = bypass_shift_samples [OF assms(1,3,4,6) p2(1) h2(2) p2(4), of 33,
      unfolded h2(1) tg iv p2(5,6)]
  have sh: "toggle_count (bypass_shift ?W c m q i s2) = 16"
    "idval (bypass_shift ?W c m q i s2) = 0x11111111"
    unfolding bypass_shift_def cm using * by (simp_all del: upt_rec_numeral)
  show "toggle_count (bypass_measure ?W count c m q i s) = 16"
    and "idval (bypass_measure ?W count c m q i s) = 0x11111111"
    unfolding bypass_measure_def Let_def r fl using sh by simp_all
qed

subsection \<open>The bypass target is found\<close>

text \<open>
  C5: wired to any four usable, pairwise different pins, the simulated target with a
  one-cycle delay between DataIn and DataOut makes the measurement of lines 715-800 end
  with a toggle count of exactly 16, whatever the registers and the target held before;
  16 lies strictly between 13 and 19, so the trial returns with \<open>retval\<close> 1 and reports the
  four pins with the captured word \<open>0x11111111\<close>.
\<close>

theorem bypass_target_accepted:
  assumes "usable tck" "usable tms" "usable tdo" "usable tdi"
    "tck \<noteq> tms" "tck \<noteq> tdo" "tck \<noteq> tdi" "tms \<noteq> tdo" "tms \<noteq> tdi" "tdo \<noteq> tdi"
  shows "unat (toggle_count (bypass_measure (bypass_world tck tdi) count_ones tck tms tdo tdi s)) = 16
       \<and> toggle_count (bypass_measure (bypass_world tck tdi) count_ones tck tms tdo tdi s) > 13
       \<and> toggle_count (bypass_measure (bypass_world tck tdi) count_ones tck tms tdo tdi s) < 19
       \<and> retval (bypass_trial (bypass_world tck tdi) count_ones tck tms tdo tdi s) = 1
       \<and> printed s (bypass_trial (bypass_world tck tdi) count_ones tck tms tdo tdi s)
           = (if vflag s \<noteq> 0 then [Trying4 tck tms tdo tdi] else [])
             @ [FoundBypass tck tms tdo tdi 0x11111111]"
  using bypass_measure_tap [OF assms(1,2,3,4,5,7,9), of count_ones s]
  by (simp add: bypass_trial_def Let_def printed_def)

theorem bypass_target_accepted_witness:
  "usable 0 \<and> usable 3 \<and> usable 4 \<and> usable 5
   \<and> unat (toggle_count (bypass_measure (bypass_world 0 5) count_ones 0 3 4 5
        (power_on \<lparr>tck_was = True, held = True, shown = True\<rparr>))) = 16
   \<and> retval (bypass_trial (bypass_world 0 5) count_ones 0 3 4 5
        (power_on \<lparr>tck_was = True, held = True, shown = True\<rparr>)) = 1
   \<and> printed (power_on \<lparr>tck_was = True, held = True, shown = True\<rparr>)
        (bypass_trial (bypass_world 0 5) count_ones 0 3 4 5
          (power_on \<lparr>tck_was = True, held = True, shown = True\<rparr>))
       = [FoundBypass 0 3 4 5 0x11111111]"
proof -
  have u: "usable 0" "usable 3" "usable 4" "usable 5" by (simp_all add: usable_def PINS_def)
  have d: "(0 :: pin) \<noteq> 3" "(0 :: pin) \<noteq> 4" "(0 :: pin) \<noteq> 5" "(3 :: pin) \<noteq> 4"
    "(3 :: pin) \<noteq> 5" "(4 :: pin) \<noteq> 5" by simp_all
  have v: "vflag (power_on \<lparr>tck_was = True, held = True, shown = True\<rparr>) = 0"
    by (simp add: power_on_def)
  show ?thesis
    using bypass_target_accepted [OF u d, of "power_on \<lparr>tck_was = True, held = True, shown = True\<rparr>"]
      u v by simp
qed

subsection \<open>The DataIn trial seen by the logic analyser\<close>

lemma probe_still:
  assumes "\<not> out_bit ps c" "\<not> clk_was t"
  shows "probe_react c d ps t = t"
  using assms by (cases t) (simp add: probe_react_def)

lemma out_bit_other_regs [simp]:
  "out_bit (ps\<lparr>P1DIR := x\<rparr>) p = out_bit ps p" "out_bit (ps\<lparr>P1REN := x\<rparr>) p = out_bit ps p"
  "out_bit (ps\<lparr>P2DIR := x\<rparr>) p = out_bit ps p" "out_bit (ps\<lparr>P2REN := x\<rparr>) p = out_bit ps p"
  by (simp_all add: out_bit_def)

lemma out_bit_upd:
  "out_bit (ps\<lparr>P1OUT := v\<rparr>) c = (if c < 8 then bit v c else out_bit ps c)"
  "out_bit (ps\<lparr>P2OUT := v\<rparr>) c = (if c < 8 then out_bit ps c else bit v (c - 8))"
  by (simp_all add: out_bit_def)

lemma out_bit_fold:
  "c < 8 \<Longrightarrow> bit (P1OUT ps) c = out_bit ps c"
  "\<not> c < 8 \<Longrightarrow> bit (P2OUT ps) (c - 8) = out_bit ps c"
  by (simp_all add: out_bit_def)

lemma output_probe:
  assumes "\<not> out_bit (ports s) c" "\<not> clk_was (target s)"
  shows "target (output_P1 (probe_world c d r) b s) = target s"
    and "\<not> out_bit (ports (output_P1 (probe_world c d r) b s)) c"
    and "target (output_P2 (probe_world c d r) b s) = target s"
    and "\<not> out_bit (ports (output_P2 (probe_world c d r) b s)) c"
  using assms
  by (simp_all add: output_P1_def output_P2_def upd_defs Let_def probe_still
        out_bit_upd out_bit_fold bit_simps)

lemma set_pin_to_output_probe:
  assumes "\<not> out_bit (ports s) c" "\<not> clk_was (target s)"
  shows "target (set_pin_to_output (probe_world c d r) p s) = target s"
    and "\<not> out_bit (ports (set_pin_to_output (probe_world c d r) p s)) c"
  using assms by (simp_all add: set_pin_to_output_def output_probe)

lemma id_flush_probe:
  assumes "usable c" "c \<noteq> d" "\<not> out_bit (ports s) c" "\<not> clk_was (target s)"
  shows "fold (\<lambda>j. pulse (probe_world c d r) c) xs s
       = s\<lparr>target := \<lparr>clk_was = False,
                       seen = seen (target s) @ replicate (length xs) (out_bit (ports s) d)\<rparr>\<rparr>"
  using assms(3,4)
proof (induction xs arbitrary: s)
  case Nil
  then show ?case by simp
next
  case (Cons x xs)
  have "pulse (probe_world c d r) c s
       = s\<lparr>target := \<lparr>clk_was = False, seen = seen (target s) @ [out_bit (ports s) d]\<rparr>\<rparr>"
    using assms(1,2) Cons.prems by (rule probe_pulse)
  then show ?case
    using Cons.prems by (simp add: Cons.IH replicate_append_same)
qed


lemma id_inject_one:
  assumes "usable c" "usable q" "usable i" "c \<noteq> i" "c \<noteq> d"
    "\<not> out_bit (ports s) c" "\<not> clk_was (target s)" "byte_prev s = level_byte q prev"
    "b = (j < 32 \<and> j mod 2 \<noteq> 0)"
  shows "id_inject_step (probe_world c d r) c q i j s
       = s\<lparr>ports := with_out i b (ports s),
           target := \<lparr>clk_was = False, seen = seen (target s) @ [out_bit (ports s) d]\<rparr>,
           byte_val := level_byte q (r (Suc (length (seen (target s))))),
           tc := tc s + (if r (Suc (length (seen (target s)))) \<noteq> prev then 1 else 0),
           byte_prev := level_byte q (r (Suc (length (seen (target s)))))\<rparr>"
proof -
  let ?s1 = "s\<lparr>target := \<lparr>clk_was = False, seen = seen (target s) @ [out_bit (ports s) d]\<rparr>\<rparr>"
  let ?s2 = "?s1\<lparr>ports := with_out i b (ports s),
       target := \<lparr>clk_was = False, seen = seen (target s) @ [out_bit (ports s) d]\<rparr>\<rparr>"
  have p: "clr_pin (probe_world c d r) c (set_pin (probe_world c d r) c s) = ?s1"
    using probe_pulse [OF assms(1,5,6,7), of r] by (simp add: pulse_def)
  have c1: "\<not> out_bit (ports ?s1) c" "\<not> clk_was (target ?s1)" using assms(6) by simp_all
  have "(if b then set_pin (probe_world c d r) i ?s1
            else clr_pin (probe_world c d r) i ?s1) = ?s2"
    using probe_data [OF assms(3) assms(4) [symmetric] c1, of d r]
    by (cases b) simp_all
  then have d: "(if j < 32 \<and> j mod 2 \<noteq> 0 then set_pin (probe_world c d r) i ?s1
            else clr_pin (probe_world c d r) i ?s1) = ?s2"
    unfolding assms(9) .
  have rd: "read_pin (probe_world c d r) q ?s2 = level_byte q (r (Suc (length (seen (target s)))))"
    by (simp add: read_pin_probe [OF assms(2)])
  show ?thesis
    unfolding id_inject_step_def Let_def p d
    by (rule mcu.equality) (simp_all add: read_pin_probe [OF assms(2)] assms(8))
qed

lemma id_inject_samples:
  assumes "usable c" "usable q" "usable i" "c \<noteq> i" "c \<noteq> d"
    "\<not> out_bit (ports s) c" "\<not> clk_was (target s)" "byte_prev s = level_byte q prev"
  shows "\<not> out_bit (ports (fold (id_inject_step (probe_world c d r) c q i) [0..<n] s)) c
       \<and> out_bit (ports (fold (id_inject_step (probe_world c d r) c q i) [0..<n] s)) d
           = (if d = i \<and> 0 < n then n - 1 < 32 \<and> (n - 1) mod 2 \<noteq> 0 else out_bit (ports s) d)
       \<and> target (fold (id_inject_step (probe_world c d r) c q i) [0..<n] s)
           = \<lparr>clk_was = False,
              seen = seen (target s)
                @ map (\<lambda>j. if d = i \<and> 0 < j then j - 1 < 32 \<and> (j - 1) mod 2 \<noteq> 0
                            else out_bit (ports s) d) [0..<n]\<rparr>
       \<and> byte_prev (fold (id_inject_step (probe_world c d r) c q i) [0..<n] s)
           = level_byte q (last (prev # map r [Suc (length (seen (target s)))..<
                Suc (length (seen (target s)) + n)]))
       \<and> tc (fold (id_inject_step (probe_world c d r) c q i) [0..<n] s)
           = tc s + of_nat (toggles prev (map r [Suc (length (seen (target s)))..<
                Suc (length (seen (target s)) + n)]))"
proof (induction n)
  case 0
  then show ?case using assms(6,7,8) by simp
next
  case (Suc n)
  let ?t = "fold (id_inject_step (probe_world c d r) c q i) [0..<n] s"
  let ?k = "length (seen (target s))"
  note ih = Suc.IH
  have f: "fold (id_inject_step (probe_world c d r) c q i) [0..<Suc n] s
      = id_inject_step (probe_world c d r) c q i n ?t"
    by simp
  have st: "id_inject_step (probe_world c d r) c q i n ?t
       = ?t\<lparr>ports := with_out i (n < 32 \<and> n mod 2 \<noteq> 0) (ports ?t),
           target := \<lparr>clk_was = False, seen = seen (target ?t) @ [out_bit (ports ?t) d]\<rparr>,
           byte_val := level_byte q (r (Suc (length (seen (target ?t))))),
           tc := tc ?t + (if r (Suc (length (seen (target ?t))))
                             \<noteq> last (prev # map r [Suc ?k..<Suc (?k + n)]) then 1 else 0),
           byte_prev := level_byte q (r (Suc (length (seen (target ?t)))))\<rparr>"
    using assms(1-5) ih by (intro id_inject_one) simp_all
  have len: "length (seen (target ?t)) = ?k + n" using ih by simp
  let ?rs = "map r [Suc ?k..<Suc (?k + n)]"
  have u: "map r [Suc ?k..<Suc (?k + Suc n)] = ?rs @ [r (Suc (?k + n))]" by simp
  have l: "last (prev # ?rs @ [r (Suc (?k + n))]) = r (Suc (?k + n))" by simp
  have m: "[0..<Suc n] = [0..<n] @ [n]" by simp
  note o = out_bit_with_out [OF usable_lt [OF assms(3)]]
  show ?case
    unfolding f st len u l toggles_snoc using ih assms(4)
    by (simp add: o m del: upt_Suc)
qed


lemma id_tdi_measure_probe:
  assumes "usable c" "usable q" "usable i" "c \<noteq> i" "c \<noteq> d"
    "\<not> out_bit (ports s) c" "\<not> clk_was (target s)"
  shows "\<not> out_bit (ports (id_tdi_measure (probe_world c d r) c m q i s)) c"
    and "target (id_tdi_measure (probe_world c d r) c m q i s)
           = \<lparr>clk_was = False,
              seen = (seen (target s) @ replicate 512 (d \<noteq> i \<and> out_bit (ports s) d))
                @ map (\<lambda>j. if d = i \<and> 0 < j then j - 1 < 32 \<and> (j - 1) mod 2 \<noteq> 0
                            else d \<noteq> i \<and> out_bit (ports s) d) [0..<512]\<rparr>"
    and "tc (id_tdi_measure (probe_world c d r) c m q i s)
           = of_nat (toggles False (map r [Suc (length (seen (target s)) + 512)..<
                Suc (length (seen (target s)) + 512 + 512)]))"
proof -
  let ?W = "probe_world c d r"
  let ?a = "(if vflag s \<noteq> 0 then print (Trying4 c m q i) s else s)\<lparr>byte_prev := 0x00, tc := 0x00\<rparr>"
  let ?c = "set_pin_to_output ?W i ?a"
  let ?D = "d \<noteq> i \<and> out_bit (ports s) d"
  define e where "e = ?c\<lparr>target := \<lparr>clk_was = False, seen = seen (target s) @ replicate 512 ?D\<rparr>\<rparr>"
  have a: "\<not> out_bit (ports ?a) c" "\<not> clk_was (target ?a)" "ports ?a = ports s"
    "target ?a = target s"
    using assms(6,7) by simp_all
  have c: "\<not> out_bit (ports ?c) c" "target ?c = target s" "out_bit (ports ?c) d = ?D"
    "byte_prev ?c = 0" "tc ?c = 0"
    using set_pin_to_output_probe [OF a(1,2), of d r i] a(3,4)
      set_pin_to_output_out [OF assms(3), of ?W ?a d]
    by simp_all
  have fl: "id_flush ?W c ?c = e"
    unfolding id_flush_def e_def
    using id_flush_probe [OF assms(1,5) c(1), of r "[0..<512]"] assms(7) c(2,3) by simp
  have e: "\<not> out_bit (ports e) c" "\<not> clk_was (target e)" "byte_prev e = level_byte q False"
    "out_bit (ports e) d = ?D" "tc e = 0"
    "seen (target e) = seen (target s) @ replicate 512 ?D"
    using c by (simp_all add: e_def)
  have m: "id_tdi_measure ?W c m q i s = fold (id_inject_step ?W c q i) [0..<512] e"
    unfolding id_tdi_measure_def Let_def fl id_inject_def ..
  note * = id_inject_samples [OF assms(1,2,3,4,5) e(1,2,3), of r 512, folded m, unfolded e(4,5,6)]
  show "\<not> out_bit (ports (id_tdi_measure ?W c m q i s)) c"
    using * by blast
  show "target (id_tdi_measure ?W c m q i s)
           = \<lparr>clk_was = False,
              seen = (seen (target s) @ replicate 512 ?D)
                @ map (\<lambda>j. if d = i \<and> 0 < j then j - 1 < 32 \<and> (j - 1) mod 2 \<noteq> 0
                            else ?D) [0..<512]\<rparr>"
    using * by blast
  show "tc (id_tdi_measure ?W c m q i s)
           = of_nat (toggles False (map r [Suc (length (seen (target s)) + 512)..<
                Suc (length (seen (target s)) + 512 + 512)]))"
    using * by (simp del: upt_rec_numeral)
qed

subsection \<open>Counting level changes of a scripted line\<close>

lemma toggles_quiet: "\<forall>b \<in> set bs. b = prev \<Longrightarrow> toggles prev bs = 0"
  by (induction bs) simp_all

lemma toggles_append:
  "toggles prev (xs @ ys) = toggles prev xs + toggles (last (prev # xs)) ys"
  by (induction xs arbitrary: prev) simp_all

lemma toggles_alternating:
  assumes "\<And>x. a \<le> x \<Longrightarrow> x < a + n \<Longrightarrow> f x = (\<not> (if x = a then prev else f (x - 1)))"
  shows "toggles prev (map f [a..<a + n]) = n"
  using assms
proof (induction n)
  case 0
  then show ?case by simp
next
  case (Suc n)
  have ih: "toggles prev (map f [a..<a + n]) = n"
    by (rule Suc.IH) (simp add: Suc.prems)
  have l: "last (prev # map f [a..<a + n]) = (if a + n = a then prev else f (a + n - 1))"
    by (cases n) simp_all
  have "f (a + n) = (\<not> (if a + n = a then prev else f (a + n - 1)))"
    by (rule Suc.prems) simp_all
  then show ?case
    using toggles_snoc [of prev "map f [a..<a + n]" "f (a + n)"] ih l by simp
qed

lemma toggles_burst:
  assumes "\<And>x. a \<le> x \<Longrightarrow> x < a + n \<Longrightarrow> f x = (\<not> (if x = a then prev else f (x - 1)))"
    and "\<And>x. a + n \<le> x \<Longrightarrow> x < a + n + m \<Longrightarrow> f x = last (prev # map f [a..<a + n])"
  shows "toggles prev (map f [a..<a + n + m]) = n"
proof -
  have "[a..<a + n + m] = [a..<a + n] @ [a + n..<a + n + m]"
    by (rule upt_add_eq_append) simp
  then have "toggles prev (map f [a..<a + n + m])
      = toggles prev (map f [a..<a + n])
        + toggles (last (prev # map f [a..<a + n])) (map f [a + n..<a + n + m])"
    by (simp add: toggles_append)
  moreover have "toggles (last (prev # map f [a..<a + n])) (map f [a + n..<a + n + m]) = 0"
    by (rule toggles_quiet) (simp add: assms(2))
  ultimately show ?thesis using toggles_alternating [OF assms(1)] by simp
qed


lemma busy_line_toggles: "toggles False (map busy_line [513..<1025]) = 288"
proof -
  have l: "last (False # map busy_line [513..<513 + 288]) = busy_line 800"
    using last_map [of "[513..<513 + 288]" busy_line] by (simp del: upt_rec_numeral)
  have "toggles False (map busy_line [513..<513 + 288 + 224]) = 288"
  proof (rule toggles_burst)
    fix x :: nat
    assume "513 \<le> x" "x < 513 + 288"
    then show "busy_line x = (\<not> (if x = 513 then False else busy_line (x - 1)))"
      by (auto simp add: busy_line_def)
  next
    fix x :: nat
    assume "513 + 288 \<le> x" "x < 513 + 288 + 224"
    then show "busy_line x = last (False # map busy_line [513..<513 + 288])"
      unfolding l by (simp add: busy_line_def)
  qed
  then show ?thesis by (simp del: upt_rec_numeral)
qed


lemma id_tdi_trial_probe:
  assumes "usable c" "usable q" "usable i" "c \<noteq> i" "c \<noteq> d"
    "\<not> out_bit (ports s) c" "\<not> clk_was (target s)"
    "n = toggles False (map r [Suc (length (seen (target s)) + 512)..<
                Suc (length (seen (target s)) + 512 + 512)])"
  shows "\<not> out_bit (ports (id_tdi_trial (probe_world c d r) c m q i s)) c"
    and "\<not> clk_was (target (id_tdi_trial (probe_world c d r) c m q i s))"
    and "length (seen (target (id_tdi_trial (probe_world c d r) c m q i s)))
           = length (seen (target s)) + 1024"
    and "console (id_tdi_trial (probe_world c d r) c m q i s)
           = console s @ (if vflag s \<noteq> 0 then [Trying4 c m q i] else [])
             @ (if (of_nat n :: u8) > 29 \<and> (of_nat n :: u8) < 35
                then [FoundJtagId c m q i (idval s)] else [])"
    and "retval (id_tdi_trial (probe_world c d r) c m q i s)
           = (if (of_nat n :: u8) > 29 \<and> (of_nat n :: u8) < 35 then 1 else retval s)"
    and "vflag (id_tdi_trial (probe_world c d r) c m q i s) = vflag s"
    and "idval (id_tdi_trial (probe_world c d r) c m q i s) = idval s"
proof -
  let ?m = "id_tdi_measure (probe_world c d r) c m q i s"
  note p = id_tdi_measure_probe [OF assms(1-7), of r m, folded assms(8)]
  have i: "idval ?m = idval s"
    by (simp add: id_tdi_measure_def Let_def)
  have l: "length (seen (target ?m)) = length (seen (target s)) + 1024"
    unfolding p(2) by (simp del: upt_rec_numeral)
  have c: "\<not> clk_was (target ?m)" unfolding p(2) by simp
  show "\<not> out_bit (ports (id_tdi_trial (probe_world c d r) c m q i s)) c"
    using p(1) by (simp add: id_tdi_trial_def Let_def print_def)
  show "\<not> clk_was (target (id_tdi_trial (probe_world c d r) c m q i s))"
    using c by (simp add: id_tdi_trial_def Let_def print_def)
  show "length (seen (target (id_tdi_trial (probe_world c d r) c m q i s)))
           = length (seen (target s)) + 1024"
    using l by (simp add: id_tdi_trial_def Let_def print_def)
  show "console (id_tdi_trial (probe_world c d r) c m q i s)
           = console s @ (if vflag s \<noteq> 0 then [Trying4 c m q i] else [])
             @ (if (of_nat n :: u8) > 29 \<and> (of_nat n :: u8) < 35
                then [FoundJtagId c m q i (idval s)] else [])"
    by (simp add: id_tdi_trial_def Let_def p(3) i)
  show "retval (id_tdi_trial (probe_world c d r) c m q i s)
           = (if (of_nat n :: u8) > 29 \<and> (of_nat n :: u8) < 35 then 1 else retval s)"
    by (simp add: id_tdi_trial_def Let_def p(3))
  show "vflag (id_tdi_trial (probe_world c d r) c m q i s) = vflag s"
    by (simp add: id_tdi_trial_def Let_def)
  show "idval (id_tdi_trial (probe_world c d r) c m q i s) = idval s"
    by (simp add: id_tdi_trial_def Let_def i)
qed


subsection \<open>The toggle counter of the DataIn trial wraps\<close>

text \<open>
  C6, at a line that changes level 288 times during the second run of 512 pulses: pins
  0, 3, 4, 5 as Clock, ModeSelect, DataOut, DataIn, the logic analyser on Clock and
  DataIn.  DataIn is low at the 512 pulses of the flush and, in the second run, high at
  the pulses 2, 4, .., 32 and low at all others; the 8-bit counter \<^verbatim>\<open>tc\<close> ends at 32
  and the candidate is accepted.
\<close>

theorem id_tdi_counter_wraps:
  "toggles False (map busy_line [513..<1025]) = 288
   \<and> seen (target (id_tdi_measure (probe_world 0 5 busy_line) 0 3 4 5 (power_on probe_idle)))
       = replicate 512 False @ map (\<lambda>j. 0 < j \<and> j \<le> 32 \<and> even j) [0..<512]
   \<and> tc (id_tdi_measure (probe_world 0 5 busy_line) 0 3 4 5 (power_on probe_idle)) = 32
   \<and> retval (id_tdi_trial (probe_world 0 5 busy_line) 0 3 4 5 (power_on probe_idle)) = 1
   \<and> console (id_tdi_trial (probe_world 0 5 busy_line) 0 3 4 5 (power_on probe_idle))
       = [FoundJtagId 0 3 4 5 0]"
proof -
  let ?s = "power_on probe_idle"
  have u: "usable 0" "usable 4" "usable 5" by (simp_all add: usable_def PINS_def)
  have d: "(0 :: pin) \<noteq> 5" by simp
  have s: "\<not> out_bit (ports ?s) 0" "\<not> clk_was (target ?s)"
    by (simp_all add: power_on_def probe_idle_def out_bit_def)
  have z: "seen (target ?s) = []" "vflag ?s = 0" "console ?s = []" "idval ?s = 0"
    by (simp_all add: power_on_def probe_idle_def)
  have w: "(of_nat 288 :: u8) = 32" by simp
  have n: "288 = toggles False (map busy_line
      [Suc (length (seen (target ?s)) + 512)..<Suc (length (seen (target ?s)) + 512 + 512)])"
    unfolding z(1) by (simp add: busy_line_toggles del: upt_rec_numeral)
  note m = id_tdi_measure_probe [OF u d d s, of busy_line 3, folded n, unfolded w]
  note t = id_tdi_trial_probe [OF u d d s n, of 3, unfolded w]
  have e: "(\<lambda>j. if (5 :: pin) = 5 \<and> 0 < j then j - 1 < 32 \<and> (j - 1) mod 2 \<noteq> 0
                 else (5 :: pin) \<noteq> 5 \<and> out_bit (ports ?s) 5)
      = (\<lambda>j :: nat. 0 < j \<and> j \<le> 32 \<and> even j)"
  proof
    fix j :: nat
    show "(if (5 :: pin) = 5 \<and> 0 < j then j - 1 < 32 \<and> (j - 1) mod 2 \<noteq> 0
                 else (5 :: pin) \<noteq> 5 \<and> out_bit (ports ?s) 5)
      = (0 < j \<and> j \<le> 32 \<and> even j)"
      by (cases j) (auto simp add: odd_iff_mod_2_eq_one)
  qed
  have a: "seen (target (id_tdi_measure (probe_world 0 5 busy_line) 0 3 4 5 ?s))
       = replicate 512 False @ map (\<lambda>j. 0 < j \<and> j \<le> 32 \<and> even j) [0..<512]"
    unfolding m(2) e z(1) by (simp del: upt_rec_numeral)
  have b: "tc (id_tdi_measure (probe_world 0 5 busy_line) 0 3 4 5 ?s) = 32"
    by (rule m(3))
  have c: "retval (id_tdi_trial (probe_world 0 5 busy_line) 0 3 4 5 ?s) = 1"
    unfolding t(5) by simp
  have f: "console (id_tdi_trial (probe_world 0 5 busy_line) 0 3 4 5 ?s)
       = [FoundJtagId 0 3 4 5 0]"
    unfolding t(4) z by simp
  show ?thesis by (intro conjI busy_line_toggles a b c f)
qed

subsection \<open>Verdicts\<close>

lemma some_accepted_retval:
  assumes "\<And>x s. retval (f x s) = (if acc x s then 1 else retval s)"
  shows "retval (fold f xs s) = (if some_accepted acc f xs s then 1 else retval s)"
  by (induction xs arbitrary: s) (simp_all add: assms)

lemma some_accepted_mem:
  assumes "x \<in> set xs" "\<And>s. acc x s"
  shows "some_accepted acc f xs s"
  using assms(1) by (induction xs arbitrary: s) (auto simp add: assms(2))

lemma swd_trial_retval:
  "retval (swd_trial w swclk swdio s)
     = (if 7 < unat (toggle_count (swd_measure w swclk swdio s)) then 1 else retval s)"
  by (simp add: swd_trial_def Let_def word_less_nat_alt)

lemma bypass_trial_retval:
  "retval (bypass_trial w count tck tms tdo tdi s)
     = (if 13 < unat (toggle_count (bypass_measure w count tck tms tdo tdi s))
           \<and> unat (toggle_count (bypass_measure w count tck tms tdo tdi s)) < 19
        then 1 else retval s)"
  by (simp add: bypass_trial_def Let_def word_less_nat_alt)

lemma id_tdi_trial_retval:
  "retval (id_tdi_trial w tck tms tdo tdi s)
     = (if 29 < unat (tc (id_tdi_measure w tck tms tdo tdi s))
           \<and> unat (tc (id_tdi_measure w tck tms tdo tdi s)) < 35
        then 1 else retval s)"
  by (simp add: id_tdi_trial_def Let_def word_less_nat_alt)

lemma id_trial_retval:
  "retval (id_trial w tck tms tdo s)
     = (if 7 < unat (toggle_count (id_shift_loop w tck tms tdo (id_trial_init w tck tms
                  (if vflag s \<noteq> 0 then print (Trying3 tck tms tdo) s else s))))
           \<and> some_accepted
               (\<lambda>tdi s. 29 < unat (tc (id_tdi_measure w tck tms tdo tdi s))
                   \<and> unat (tc (id_tdi_measure w tck tms tdo tdi s)) < 35)
               (id_tdi_trial w tck tms tdo) (tested_tdi tck tms tdo)
               (id_shift_loop w tck tms tdo (id_trial_init w tck tms
                  (if vflag s \<noteq> 0 then print (Trying3 tck tms tdo) s else s)))
        then 1 else retval s)"
  unfolding id_trial_def tdi_loop_tested Let_def
  by (simp add: some_accepted_retval [OF id_tdi_trial_retval] word_less_nat_alt)

lemma finder_bands:
  "fst (jtag_finder_id_method w s) =
     (if some_accepted
           (\<lambda>(tck, tms, tdo) s.
               7 < unat (toggle_count (id_shift_loop w tck tms tdo (id_trial_init w tck tms
                        (if vflag s \<noteq> 0 then print (Trying3 tck tms tdo) s else s))))
               \<and> some_accepted
                   (\<lambda>tdi s. 29 < unat (tc (id_tdi_measure w tck tms tdo tdi s))
                       \<and> unat (tc (id_tdi_measure w tck tms tdo tdi s)) < 35)
                   (id_tdi_trial w tck tms tdo) (tested_tdi tck tms tdo)
                   (id_shift_loop w tck tms tdo (id_trial_init w tck tms
                      (if vflag s \<noteq> 0 then print (Trying3 tck tms tdo) s else s))))
           (\<lambda>(tck, tms, tdo). id_trial w tck tms tdo) tested_triples (s\<lparr>retval := 0\<rparr>)
      then 1 else 0)"
  "fst (bypass_search w count s) =
     (if some_accepted
           (\<lambda>(tck, tms, tdo).
               some_accepted
                 (\<lambda>tdi s. 13 < unat (toggle_count (bypass_measure w count tck tms tdo tdi s))
                     \<and> unat (toggle_count (bypass_measure w count tck tms tdo tdi s)) < 19)
                 (bypass_trial w count tck tms tdo) (tested_tdi tck tms tdo))
           (\<lambda>(tck, tms, tdo). fold (bypass_trial w count tck tms tdo) (tested_tdi tck tms tdo))
           tested_triples (s\<lparr>retval := 0\<rparr>)
      then 1 else 0)"
  "fst (swd_finder w s) =
     (if some_accepted
           (\<lambda>(swclk, swdio) s. 7 < unat (toggle_count (swd_measure w swclk swdio s)))
           (\<lambda>(swclk, swdio). swd_trial w swclk swdio) tested_pairs (s\<lparr>retval := 0\<rparr>)
      then 1 else 0)"
proof -
  have r0: "retval (s\<lparr>retval := 0\<rparr>) = 0" by simp
  have a: "retval ((\<lambda>(tck, tms, tdo). id_trial w tck tms tdo) x t)
      = (if (\<lambda>(tck, tms, tdo) s.
               7 < unat (toggle_count (id_shift_loop w tck tms tdo (id_trial_init w tck tms
                        (if vflag s \<noteq> 0 then print (Trying3 tck tms tdo) s else s))))
               \<and> some_accepted
                   (\<lambda>tdi s. 29 < unat (tc (id_tdi_measure w tck tms tdo tdi s))
                       \<and> unat (tc (id_tdi_measure w tck tms tdo tdi s)) < 35)
                   (id_tdi_trial w tck tms tdo) (tested_tdi tck tms tdo)
                   (id_shift_loop w tck tms tdo (id_trial_init w tck tms
                      (if vflag s \<noteq> 0 then print (Trying3 tck tms tdo) s else s)))) x t
         then 1 else retval t)" for x t
    by (cases x) (simp only: prod.case id_trial_retval)
  show "fst (jtag_finder_id_method w s) =
     (if some_accepted
           (\<lambda>(tck, tms, tdo) s.
               7 < unat (toggle_count (id_shift_loop w tck tms tdo (id_trial_init w tck tms
                        (if vflag s \<noteq> 0 then print (Trying3 tck tms tdo) s else s))))
               \<and> some_accepted
                   (\<lambda>tdi s. 29 < unat (tc (id_tdi_measure w tck tms tdo tdi s))
                       \<and> unat (tc (id_tdi_measure w tck tms tdo tdi s)) < 35)
                   (id_tdi_trial w tck tms tdo) (tested_tdi tck tms tdo)
                   (id_shift_loop w tck tms tdo (id_trial_init w tck tms
                      (if vflag s \<noteq> 0 then print (Trying3 tck tms tdo) s else s))))
           (\<lambda>(tck, tms, tdo). id_trial w tck tms tdo) tested_triples (s\<lparr>retval := 0\<rparr>)
      then 1 else 0)"
    unfolding jtag_finder_id_method_def triple_loops_tested Let_def fst_conv
    by (rule trans [OF some_accepted_retval [OF a]]) (simp only: r0)
  have b: "retval ((\<lambda>(tck, tms, tdo). fold (bypass_trial w count tck tms tdo) (tested_tdi tck tms tdo)) x t)
      = (if (\<lambda>(tck, tms, tdo).
               some_accepted
                 (\<lambda>tdi s. 13 < unat (toggle_count (bypass_measure w count tck tms tdo tdi s))
                     \<and> unat (toggle_count (bypass_measure w count tck tms tdo tdi s)) < 19)
                 (bypass_trial w count tck tms tdo) (tested_tdi tck tms tdo)) x t
         then 1 else retval t)" for x t
    by (cases x) (simp only: prod.case some_accepted_retval [OF bypass_trial_retval])
  show "fst (bypass_search w count s) =
     (if some_accepted
           (\<lambda>(tck, tms, tdo).
               some_accepted
                 (\<lambda>tdi s. 13 < unat (toggle_count (bypass_measure w count tck tms tdo tdi s))
                     \<and> unat (toggle_count (bypass_measure w count tck tms tdo tdi s)) < 19)
                 (bypass_trial w count tck tms tdo) (tested_tdi tck tms tdo))
           (\<lambda>(tck, tms, tdo). fold (bypass_trial w count tck tms tdo) (tested_tdi tck tms tdo))
           tested_triples (s\<lparr>retval := 0\<rparr>)
      then 1 else 0)"
    unfolding bypass_search_def triple_loops_tested tdi_loop_tested Let_def fst_conv
    by (rule trans [OF some_accepted_retval [OF b]]) (simp only: r0)
  have c: "retval ((\<lambda>(swclk, swdio). swd_trial w swclk swdio) x t)
      = (if (\<lambda>(swclk, swdio) s. 7 < unat (toggle_count (swd_measure w swclk swdio s))) x t
         then 1 else retval t)" for x t
    by (cases x) (simp only: prod.case swd_trial_retval)
  show "fst (swd_finder w s) =
     (if some_accepted
           (\<lambda>(swclk, swdio) s. 7 < unat (toggle_count (swd_measure w swclk swdio s)))
           (\<lambda>(swclk, swdio). swd_trial w swclk swdio) tested_pairs (s\<lparr>retval := 0\<rparr>)
      then 1 else 0)"
    unfolding swd_finder_def pair_loops_tested Let_def fst_conv
    by (rule trans [OF some_accepted_retval [OF c]]) (simp only: r0)
qed


lemma bypass_tap_accepted:
  "some_accepted
     (\<lambda>(tck, tms, tdo).
         some_accepted
           (\<lambda>tdi s. 13 < unat (toggle_count (bypass_measure (bypass_world 0 5) count_ones tck tms tdo tdi s))
               \<and> unat (toggle_count (bypass_measure (bypass_world 0 5) count_ones tck tms tdo tdi s)) < 19)
           (bypass_trial (bypass_world 0 5) count_ones tck tms tdo) (tested_tdi tck tms tdo))
     f tested_triples s"
proof -
  have u: "usable 0" "usable 3" "usable 4" "usable 5" by (simp_all add: usable_def PINS_def)
  have m: "(0, 3, 4) \<in> set tested_triples" by (simp add: tested_triples_ok u)
  have n: "5 \<in> set (tested_tdi 0 3 4)" by (simp add: tested_tdi_eq tdi_candidates_ok u)
  have "unat (toggle_count (bypass_measure (bypass_world 0 5) count_ones 0 3 4 5 t)) = 16" for t
    using bypass_measure_tap(1) [OF u, of count_ones t] by simp
  then have i: "13 < unat (toggle_count (bypass_measure (bypass_world 0 5) count_ones 0 3 4 5 t))
      \<and> unat (toggle_count (bypass_measure (bypass_world 0 5) count_ones 0 3 4 5 t)) < 19" for t
    by simp
  have "(\<lambda>(tck, tms, tdo).
         some_accepted
           (\<lambda>tdi s. 13 < unat (toggle_count (bypass_measure (bypass_world 0 5) count_ones tck tms tdo tdi s))
               \<and> unat (toggle_count (bypass_measure (bypass_world 0 5) count_ones tck tms tdo tdi s)) < 19)
           (bypass_trial (bypass_world 0 5) count_ones tck tms tdo) (tested_tdi tck tms tdo)) (0, 3, 4) t"
    for t
    unfolding prod.case by (rule some_accepted_mem [OF n]) (rule i)
  then show ?thesis by (rule some_accepted_mem [OF m])
qed



subsection \<open>Reset and shift sequence of the ID method\<close>

lemma wired_probe_sel [simp]:
  "react (wired_probe c d r) = probe_react c d"
  "port1_in (wired_probe c d r) t = lines_in (\<lambda>p. r p (length (seen t))) 0"
  "port2_in (wired_probe c d r) t = lines_in (\<lambda>p. r p (length (seen t))) 8"
  by (simp_all add: wired_probe_def)

lemma bit_lines_in: "bit (lines_in lv base) n \<longleftrightarrow> n < 8 \<and> lv (base + n)"
  unfolding lines_in_def by (auto simp add: bit_horner_sum_bit_word_iff simp del: upt_rec_numeral)

lemma lines_in_mask:
  assumes "p < 16"
  shows "(if p < 8 then lines_in lv 0 else lines_in lv 8) AND pin_mask p = level_byte p (lv p)"
proof (cases "p < 8")
  case True
  then show ?thesis
    by (intro bit_eqI) (auto simp add: bit_simps bit_lines_in bit_pin_mask level_byte_def)
next
  case False
  then have m: "p mod 8 = p - 8" "8 + (p - 8) = p" "p - 8 < 8"
    using assms by (simp_all add: port2_index)
  show ?thesis
    using False m
    by (intro bit_eqI) (auto simp add: bit_simps bit_lines_in bit_pin_mask level_byte_def)
qed

lemma read_pin_wired:
  assumes "usable p"
  shows "read_pin (wired_probe c d r) p s = level_byte p (r p (length (seen (target s))))"
  using lines_in_mask [OF usable_lt [OF assms], of "\<lambda>p. r p (length (seen (target s)))"]
  by (cases "p < 8") (simp_all add: read_pin_level [OF assms])

lemma wired_pulse:
  assumes "usable c" "c \<noteq> d" "\<not> out_bit (ports s) c" "\<not> clk_was (target s)"
  shows "pulse (wired_probe c d r) c s
       = s\<lparr>target := \<lparr>clk_was = False, seen = seen (target s) @ [out_bit (ports s) d]\<rparr>\<rparr>"
  using assms usable_lt [OF assms(1)]
  by (simp add: pulse_def set_pin_drive clr_pin_drive probe_react_def out_bit_with_out
        with_out_twice with_out_same)

lemma wired_data:
  assumes "usable p" "p \<noteq> c" "\<not> out_bit (ports s) c" "\<not> clk_was (target s)"
  shows "set_pin (wired_probe c d r) p s
       = s\<lparr>ports := with_out p True (ports s),
           target := \<lparr>clk_was = False, seen = seen (target s)\<rparr>\<rparr>"
    and "clr_pin (wired_probe c d r) p s
       = s\<lparr>ports := with_out p False (ports s),
           target := \<lparr>clk_was = False, seen = seen (target s)\<rparr>\<rparr>"
  using assms usable_lt [OF assms(1)]
  by (simp_all add: set_pin_drive clr_pin_drive probe_react_def out_bit_with_out)

lemma shift_first8_wired:
  assumes "usable c" "usable m" "c \<noteq> m" "\<not> out_bit (ports s) c" "\<not> clk_was (target s)"
  shows "fold (id_shift_step (wired_probe c m r) c m q) [0..<8] (set_pin (wired_probe c m r) m s)
       = s\<lparr>ports := with_out m False (ports s),
           target := \<lparr>clk_was = False,
                      seen = seen (target s) @ [True, True, True, True, True, False, True, False]\<rparr>\<rparr>"
proof -
  have u: "[0..<8] = [0, 1, 2, 3, 4, 5, 6, 7 :: nat]" by (simp add: upt_rec)
  show ?thesis
    unfolding u using assms usable_lt [OF assms(1)] usable_lt [OF assms(2)]
    by (simp add: id_shift_step_def Let_def wired_data wired_pulse [unfolded pulse_def]
          out_bit_with_out with_out_twice)
qed

lemma shift_sample_wired:
  assumes "usable c" "usable q" "c \<noteq> m" "7 < j"
    "\<not> out_bit (ports s) c" "\<not> out_bit (ports s) m" "\<not> clk_was (target s)"
    "byte_prev s = level_byte q prev"
  shows "id_shift_step (wired_probe c m r) c m q j s
       = s\<lparr>target := \<lparr>clk_was = False, seen = seen (target s) @ [False]\<rparr>,
           byte_val := level_byte q (r q (Suc (length (seen (target s))))),
           byte_prev := level_byte q (r q (Suc (length (seen (target s))))),
           toggle_count := toggle_count s
              + (if r q (Suc (length (seen (target s)))) \<noteq> prev then 1 else 0),
           idval := shift_in (r q (Suc (length (seen (target s))))) (idval s)\<rparr>"
proof -
  have j: "j \<noteq> 4" "j \<noteq> 5" "j \<noteq> 6" using assms(4) by simp_all
  show ?thesis
    using assms j
    by (simp add: id_shift_step_def Let_def wired_pulse [unfolded pulse_def] read_pin_wired
          sample_level [where prev = prev])
qed

lemma shift_samples_wired:
  assumes "usable c" "usable q" "c \<noteq> m" "7 < a"
    "\<not> out_bit (ports s) c" "\<not> out_bit (ports s) m" "\<not> clk_was (target s)"
    "byte_prev s = level_byte q prev"
  shows "ports (fold (id_shift_step (wired_probe c m r) c m q) [a..<a + n] s) = ports s
       \<and> target (fold (id_shift_step (wired_probe c m r) c m q) [a..<a + n] s)
           = \<lparr>clk_was = False, seen = seen (target s) @ replicate n False\<rparr>
       \<and> byte_prev (fold (id_shift_step (wired_probe c m r) c m q) [a..<a + n] s)
           = level_byte q (last (prev # map (r q) [Suc (length (seen (target s)))..<
                Suc (length (seen (target s)) + n)]))
       \<and> toggle_count (fold (id_shift_step (wired_probe c m r) c m q) [a..<a + n] s)
           = toggle_count s + of_nat (toggles prev (map (r q) [Suc (length (seen (target s)))..<
                Suc (length (seen (target s)) + n)]))
       \<and> idval (fold (id_shift_step (wired_probe c m r) c m q) [a..<a + n] s)
           = fold shift_in (map (r q) [Suc (length (seen (target s)))..<
                Suc (length (seen (target s)) + n)]) (idval s)"
proof (induction n)
  case 0
  then show ?case using assms(7,8) by simp
next
  case (Suc n)
  let ?t = "fold (id_shift_step (wired_probe c m r) c m q) [a..<a + n] s"
  let ?k = "length (seen (target s))"
  have f: "fold (id_shift_step (wired_probe c m r) c m q) [a..<a + Suc n] s
      = id_shift_step (wired_probe c m r) c m q (a + n) ?t"
    by simp
  note ih = Suc.IH
  have st: "id_shift_step (wired_probe c m r) c m q (a + n) ?t
       = ?t\<lparr>target := \<lparr>clk_was = False, seen = seen (target ?t) @ [False]\<rparr>,
           byte_val := level_byte q (r q (Suc (length (seen (target ?t))))),
           byte_prev := level_byte q (r q (Suc (length (seen (target ?t))))),
           toggle_count := toggle_count ?t
              + (if r q (Suc (length (seen (target ?t)))) \<noteq> last (prev # map (r q) [Suc ?k..<Suc (?k + n)])
                 then 1 else 0),
           idval := shift_in (r q (Suc (length (seen (target ?t))))) (idval ?t)\<rparr>"
    using assms ih by (intro shift_sample_wired) simp_all
  have len: "length (seen (target ?t)) = ?k + n" using ih by simp
  show ?case
    unfolding f st len using ih
    by (simp add: toggles_snoc replicate_append_same)
qed

lemma shift_loop_wired:
  assumes "usable c" "usable m" "usable q" "c \<noteq> m"
    "\<not> out_bit (ports s) c" "\<not> clk_was (target s)" "byte_prev s = 0"
  shows "seen (target (id_shift_loop (wired_probe c m r) c m q s))
           = seen (target s) @ [True, True, True, True, True, False, True] @ replicate 33 False"
    and "toggle_count (id_shift_loop (wired_probe c m r) c m q s)
           = toggle_count s + of_nat (toggles False (map (r q)
               [length (seen (target s)) + 9..<length (seen (target s)) + 41]))"
    and "idval (id_shift_loop (wired_probe c m r) c m q s)
           = fold shift_in (map (r q)
               [length (seen (target s)) + 9..<length (seen (target s)) + 41]) (idval s)"
    and "ports (id_shift_loop (wired_probe c m r) c m q s) = with_out m False (ports s)"
    and "\<not> clk_was (target (id_shift_loop (wired_probe c m r) c m q s))"
proof -
  let ?W = "wired_probe c m r"
  let ?k = "length (seen (target s))"
  define s8 where "s8 = s\<lparr>ports := with_out m False (ports s),
           target := \<lparr>clk_was = False,
                      seen = seen (target s) @ [True, True, True, True, True, False, True, False]\<rparr>\<rparr>"
  have sp: "[0..<40] = [0..<8] @ [8..<8 + 32]"
    using upt_add_eq_append [of 0 8 32] by simp
  have e: "id_shift_loop ?W c m q s = fold (id_shift_step ?W c m q) [8..<8 + 32] s8"
    unfolding id_shift_loop_def sp fold_append comp_def s8_def
    by (simp only: shift_first8_wired [OF assms(1,2,4,5,6)])
  have p8: "\<not> out_bit (ports s8) c" "\<not> out_bit (ports s8) m" "\<not> clk_was (target s8)"
    "byte_prev s8 = level_byte q False"
    using assms usable_lt [OF assms(2)]
    by (simp_all add: s8_def out_bit_with_out)
  have v8: "seen (target s8) = seen (target s) @ [True, True, True, True, True, False, True, False]"
    "toggle_count s8 = toggle_count s" "idval s8 = idval s" "ports s8 = with_out m False (ports s)"
    by (simp_all add: s8_def)
  have k: "Suc (length (seen (target s8))) = ?k + 9" "Suc (length (seen (target s8)) + 32) = ?k + 41"
    unfolding v8 by simp_all
  have r33: "replicate 33 False = False # replicate 32 False"
  proof -
    have "(33 :: nat) = Suc 32" by simp
    then show ?thesis by (simp only: replicate_Suc)
  qed
  note * = shift_samples_wired [OF assms(1,3,4) _ p8, of 8 r 32, unfolded k, folded e]
  show "seen (target (id_shift_loop ?W c m q s))
           = seen (target s) @ [True, True, True, True, True, False, True] @ replicate 33 False"
    using * unfolding v8 r33 by simp
  show "toggle_count (id_shift_loop ?W c m q s)
           = toggle_count s + of_nat (toggles False (map (r q) [?k + 9..<?k + 41]))"
    using * unfolding v8 by simp
  show "idval (id_shift_loop ?W c m q s)
           = fold shift_in (map (r q) [?k + 9..<?k + 41]) (idval s)"
    using * unfolding v8 by simp
  show "ports (id_shift_loop ?W c m q s) = with_out m False (ports s)"
    using * unfolding v8 by simp
  show "\<not> clk_was (target (id_shift_loop ?W c m q s))"
    using * by simp
qed


lemma probe_react_clk [simp]: "clk_was (probe_react c d ps t) = out_bit ps c"
  by (simp add: probe_react_def)

lemma output_clk:
  "clk_was (target (output_P1 (wired_probe c d r) b s))
     = out_bit (ports (output_P1 (wired_probe c d r) b s)) c"
  "clk_was (target (output_P2 (wired_probe c d r) b s))
     = out_bit (ports (output_P2 (wired_probe c d r) b s)) c"
  by (simp_all add: output_P1_def output_P2_def upd_defs Let_def)

lemma set_pin_to_output_clk:
  assumes "usable p"
  shows "clk_was (target (set_pin_to_output (wired_probe c d r) p s))
       = out_bit (ports (set_pin_to_output (wired_probe c d r) p s)) c"
  using usable_cases [OF assms]
  by (elim disjE; simp add: set_pin_to_output_def output_clk)

lemma id_trial_init_wired:
  assumes "usable tck" "usable tms"
  shows "\<not> clk_was (target (id_trial_init (wired_probe tck tms r) tck tms s))"
  using assms
  by (simp add: id_trial_init_def Let_def set_pin_to_output_clk set_pin_to_output_out)

lemma all_inputs_dir:
  assumes "usable p"
  shows "\<not> dir_bit (ports (set_all_pins_to_inputs w s)) p"
  using usable_cases [OF assms]
  by (elim disjE)
     (simp_all add: set_all_pins_to_inputs_def upd_defs dir_bit_def Let_def bit_simps)

lemma output_dir:
  "P1DIR (ports (output_P1 w b s)) = P1DIR (ports s) OR b"
  "P2DIR (ports (output_P1 w b s)) = P2DIR (ports s)"
  "P1DIR (ports (output_P2 w b s)) = P1DIR (ports s)"
  "P2DIR (ports (output_P2 w b s)) = P2DIR (ports s) OR b"
  by (simp_all add: output_P1_def output_P2_def upd_defs Let_def)

lemma set_pin_to_output_dir:
  assumes "usable p"
  shows "dir_bit (ports (set_pin_to_output w p s)) x = (x = p \<or> dir_bit (ports s) x)"
proof -
  have e: "P1DIR (ports (set_pin_to_output w p s))
             = (if p < 8 then P1DIR (ports s) OR pin_mask p else P1DIR (ports s))"
    "P2DIR (ports (set_pin_to_output w p s))
             = (if p < 8 then P2DIR (ports s) else P2DIR (ports s) OR pin_mask p)"
    using usable_cases [OF assms]
    by (elim disjE; simp add: set_pin_to_output_def output_dir pin_mask_simps)+
  show ?thesis
  proof (cases "p < 8")
    case True
    then show ?thesis
      by (auto simp add: dir_bit_def e bit_simps bit_pin_mask dest: bit_beyond)
  next
    case False
    then have m: "p mod 8 = p - 8" using usable_lt [OF assms] by (rule port2_index)
    have "x - 8 = p - 8 \<longleftrightarrow> x = p" if "\<not> x < 8" using that False by auto
    with False m show ?thesis
      by (auto simp add: dir_bit_def e bit_simps bit_pin_mask dest: bit_beyond)
  qed
qed

lemma pin_dir [simp]:
  "dir_bit (ports (set_pin w p s)) x = dir_bit (ports s) x"
  "dir_bit (ports (clr_pin w p s)) x = dir_bit (ports s) x"
  by (simp_all add: set_pin_def clr_pin_def upd_defs Let_def dir_bit_def)

lemma id_trial_init_dir:
  assumes "usable tck" "usable tms" "usable x"
  shows "dir_bit (ports (id_trial_init w tck tms s)) x \<longleftrightarrow> x = tck \<or> x = tms"
  using assms
  by (auto simp add: id_trial_init_def Let_def set_pin_to_output_dir all_inputs_dir)

lemma id_shift_loop_dir:
  "dir_bit (ports (id_shift_loop w tck tms tdo s)) x = dir_bit (ports s) x"
  unfolding id_shift_loop_def
  by (subst fold_keeps [where g = "\<lambda>s. dir_bit (ports s) x"])
     (simp_all add: id_shift_step_def Let_def)

lemma id_tdi_trial_dir:
  assumes "usable tdi"
  shows "dir_bit (ports (id_tdi_trial w tck tms tdo tdi s)) x = (x = tdi \<or> dir_bit (ports s) x)"
proof -
  have f: "dir_bit (ports (id_flush w tck t)) x = dir_bit (ports t) x" for t
    unfolding id_flush_def
    by (subst fold_keeps [where g = "\<lambda>s. dir_bit (ports s) x"]) (simp_all add: pulse_def)
  have i: "dir_bit (ports (id_inject w tck tdo tdi t)) x = dir_bit (ports t) x" for t
    unfolding id_inject_def
    by (subst fold_keeps [where g = "\<lambda>s. dir_bit (ports s) x"])
       (simp_all add: id_inject_step_def Let_def)
  show ?thesis
    by (simp add: id_tdi_trial_def id_tdi_measure_def Let_def f i set_pin_to_output_dir [OF assms])
qed

lemma tdi_trials_dir:
  assumes "\<forall>p \<in> set xs. usable p"
  shows "dir_bit (ports (fold (id_tdi_trial w tck tms tdo) xs s)) x
       = (x \<in> set xs \<or> dir_bit (ports s) x)"
  using assms by (induction xs arbitrary: s) (auto simp add: id_tdi_trial_dir)

text \<open>
  C7: for every triple of usable, pairwise different pins, on a logic analyser whose input
  lines each follow a script of their own, the loop of lines 574-602 gives the clock 40
  rising edges, at which ModeSelect reads 1111101 followed by 33 zeros; the toggle counter
  and the accumulator are those of the 32 readings of the DataOut line after the pulses
  with index 8 to 39, whatever the other lines do; and the trial goes on to the DataIn
  candidates, each of which it makes an output, exactly when that toggle count exceeds 7:
  otherwise it ends with the loop and no further pin becomes an output.
\<close>

theorem id_shift_sequence:
  fixes resp :: "pin \<Rightarrow> nat \<Rightarrow> bool" and s :: "probe mcu"
  assumes "usable tck" "usable tms" "usable tdo" "tck \<noteq> tms" "tck \<noteq> tdo" "tms \<noteq> tdo"
  defines "W \<equiv> wired_probe tck tms resp"
  defines "a \<equiv> id_trial_init W tck tms (if vflag s \<noteq> 0 then print (Trying3 tck tms tdo) s else s)"
  defines "g \<equiv> id_shift_loop W tck tms tdo a"
  defines "dout \<equiv> map (resp tdo) [length (seen (target a)) + 9..<length (seen (target a)) + 41]"
  shows "seen (target g) = seen (target a) @ [True, True, True, True, True, False, True] @ replicate 33 False
       \<and> unat (toggle_count g) = toggles False dout
       \<and> captured 32 (idval g) = dout
       \<and> id_trial W tck tms tdo s
           = (if 7 < toggles False dout
              then fold (id_tdi_trial W tck tms tdo) (tested_tdi tck tms tdo) g else g)
       \<and> (\<forall>p. usable p \<and> p \<noteq> tck \<and> p \<noteq> tms \<and> p \<noteq> tdo
              \<longrightarrow> (dir_bit (ports (id_trial W tck tms tdo s)) p \<longleftrightarrow> 7 < toggles False dout))"
proof -
  let ?s0 = "if vflag s \<noteq> 0 then print (Trying3 tck tms tdo) s else s"
  note i = id_trial_init_state [OF assms(1,2), of W ?s0, folded a_def]
  have nc: "\<not> clk_was (target a)"
    unfolding a_def W_def by (rule id_trial_init_wired [OF assms(1,2)])
  note p = shift_loop_wired [OF assms(1,2,3,4) i(1) nc i(3), of resp,
      folded W_def, folded g_def dout_def]
  have len: "length dout = 32" unfolding dout_def by simp
  have "toggles False dout \<le> 32"
    using toggles_le [of False dout] unfolding len .
  then have "unat (of_nat (toggles False dout) :: u8) = toggles False dout"
    by (simp add: unat_of_nat)
  then have t: "unat (toggle_count g) = toggles False dout"
    unfolding p(2) i(4) by simp
  have c: "captured 32 (idval g) = dout"
    unfolding p(3) i(5) using captured_fold [of dout] unfolding len by simp
  have e: "id_trial W tck tms tdo s
           = (if 7 < toggles False dout
              then fold (id_tdi_trial W tck tms tdo) (tested_tdi tck tms tdo) g else g)"
    unfolding id_trial_def tdi_loop_tested Let_def word_less_nat_alt
    unfolding a_def [symmetric] g_def [symmetric] t by simp
  have d: "dir_bit (ports (id_trial W tck tms tdo s)) x \<longleftrightarrow> 7 < toggles False dout"
    if x: "usable x" "x \<noteq> tck" "x \<noteq> tms" "x \<noteq> tdo" for x
  proof -
    have m: "x \<in> set (tested_tdi tck tms tdo)"
      using x by (simp add: tested_tdi_eq tdi_candidates_ok)
    have u: "\<forall>p \<in> set (tested_tdi tck tms tdo). usable p"
      by (simp add: tested_tdi_eq tdi_candidates_ok)
    have "\<not> dir_bit (ports a) x"
      unfolding a_def using x id_trial_init_dir [OF assms(1,2) x(1), of W ?s0] by blast
    then have n: "\<not> dir_bit (ports g) x"
      unfolding g_def id_shift_loop_dir .
    show ?thesis
      unfolding e using m n by (simp add: tdi_trials_dir [OF u])
  qed
  show ?thesis using p(1) t c e d by blast
qed


theorem id_shift_sequence_witness:
  "usable 0 \<and> usable 3 \<and> usable 4 \<and> usable 5
   \<and> seen (target (id_shift_loop (wired_probe 0 3 (\<lambda>p n. p = 4 \<and> even n)) 0 3 4
        (id_trial_init (wired_probe 0 3 (\<lambda>p n. p = 4 \<and> even n)) 0 3 (power_on probe_idle))))
       = [True, True, True, True, True, False, True] @ replicate 33 False
   \<and> unat (toggle_count (id_shift_loop (wired_probe 0 3 (\<lambda>p n. p = 4 \<and> even n)) 0 3 4
        (id_trial_init (wired_probe 0 3 (\<lambda>p n. p = 4 \<and> even n)) 0 3 (power_on probe_idle))))
       = 31
   \<and> dir_bit (ports (id_trial (wired_probe 0 3 (\<lambda>p n. p = 4 \<and> even n)) 0 3 4
        (power_on probe_idle))) 5
   \<and> unat (toggle_count (id_shift_loop (wired_probe 0 3 (\<lambda>p n. p \<noteq> 4 \<and> even n)) 0 3 4
        (id_trial_init (wired_probe 0 3 (\<lambda>p n. p \<noteq> 4 \<and> even n)) 0 3 (power_on probe_idle))))
       = 0
   \<and> \<not> dir_bit (ports (id_trial (wired_probe 0 3 (\<lambda>p n. p \<noteq> 4 \<and> even n)) 0 3 4
        (power_on probe_idle))) 5"
proof -
  have u: "usable 0" "usable 3" "usable 4" "usable 5" by (simp_all add: usable_def PINS_def)
  have d: "(0 :: pin) \<noteq> 3" "(0 :: pin) \<noteq> 4" "(3 :: pin) \<noteq> 4" by simp_all
  have v: "(if vflag (power_on probe_idle) \<noteq> 0 then print l (power_on probe_idle)
            else power_on probe_idle) = power_on probe_idle" for l
    by (simp add: power_on_def)
  have k: "seen (target (id_trial_init (wired_probe 0 3 r) 0 3 (power_on probe_idle))) = []" for r
    by (simp add: id_trial_init_def set_all_pins_to_inputs_def set_pin_to_output_def
          output_P1_def upd_defs Let_def probe_react_def out_bit_def power_on_def probe_idle_def
          BIT_defs)
  have n: "length ([] :: bool list) + 9 = 9" "length ([] :: bool list) + 41 = 41" by simp_all
  have r1: "(\<lambda>p n. p = 4 \<and> even n) (4 :: pin) = (even :: nat \<Rightarrow> bool)"
    and r2: "(\<lambda>p n. p \<noteq> 4 \<and> even n) (4 :: pin) = (\<lambda>n :: nat. False)"
    by (simp_all add: fun_eq_iff)
  have t1: "toggles False (map even [9..<41]) = 31" by code_simp
  have t2: "toggles False (map (\<lambda>n. False) [9..<41]) = 0" by (rule toggles_quiet) simp
  note c2 = conjunct2
  note a = id_shift_sequence [OF u(1,2,3) d, of "\<lambda>p n. p = 4 \<and> even n" "power_on probe_idle",
      unfolded v k n r1 t1]
  note b = id_shift_sequence [OF u(1,2,3) d, of "\<lambda>p n. p \<noteq> 4 \<and> even n" "power_on probe_idle",
      unfolded v k n r2 t2]
  note a5 = a [THEN c2, THEN c2, THEN c2, THEN c2, rule_format, of 5]
  note b5 = b [THEN c2, THEN c2, THEN c2, THEN c2, rule_format, of 5]
  have a6: "dir_bit (ports (id_trial (wired_probe 0 3 (\<lambda>p n. p = 4 \<and> even n)) 0 3 4
        (power_on probe_idle))) 5"
    using a5 u(4) by simp
  have b6: "\<not> dir_bit (ports (id_trial (wired_probe 0 3 (\<lambda>p n. p \<noteq> 4 \<and> even n)) 0 3 4
        (power_on probe_idle))) 5"
    using b5 u(4) by simp
  show ?thesis
    using u a [THEN conjunct1] a [THEN c2, THEN conjunct1] b [THEN c2, THEN conjunct1] a6 b6
    by (simp del: upt_rec_numeral)
qed

subsection \<open>The DataIn search does not stop at an accepted pin\<close>

lemma lines_in_const: "lines_in (\<lambda>p. b) base = (if b then 0xFF else 0x00)"
proof -
  have a: "(0xFF :: u8) = - 1" by simp
  show ?thesis
    unfolding a by (rule bit_eqI) (auto simp add: bit_lines_in bit_simps)
qed

lemma probe_world_wired: "probe_world c d r = wired_probe c d (\<lambda>p. r)"
  by (simp add: probe_world_def wired_probe_def lines_in_const)

lemma echo_gate_toggles: "toggles False (map one_echo [9..<41]) = 31"
  by code_simp

lemma echo_gate_word: "fold shift_in (map one_echo [9..<41]) 0 = 0xAAAAAAAA"
  by code_simp

lemma echo_first_toggles: "toggles False (map one_echo [553..<1065]) = 32"
proof -
  have l: "last (False # map one_echo [553..<553 + 32]) = one_echo 584"
    using last_map [of "[553..<553 + 32]" one_echo] by (simp del: upt_rec_numeral)
  have "toggles False (map one_echo [553..<553 + 32 + 480]) = 32"
  proof (rule toggles_burst)
    fix x :: nat
    assume "553 \<le> x" "x < 553 + 32"
    then show "one_echo x = (\<not> (if x = 553 then False else one_echo (x - 1)))"
      by (auto simp add: one_echo_def)
  next
    fix x :: nat
    assume "553 + 32 \<le> x" "x < 553 + 32 + 480"
    then show "one_echo x = last (False # map one_echo [553..<553 + 32])"
      unfolding l by (simp add: one_echo_def)
  qed
  then show ?thesis by (simp del: upt_rec_numeral)
qed

lemma echo_later_toggles:
  assumes "584 \<le> k"
  shows "toggles False (map one_echo [Suc (k + 512)..<Suc (k + 512 + 512)]) = 0"
  by (rule toggles_quiet) (use assms in \<open>auto simp add: one_echo_def\<close>)


lemma echo_gate:
  fixes g :: "probe mcu"
  defines "g \<equiv> id_shift_loop (probe_world 0 3 one_echo) 0 3 4
      (id_trial_init (probe_world 0 3 one_echo) 0 3
         (print (Trying3 0 3 4) ((power_on probe_idle)\<lparr>vflag := 1\<rparr>)))"
  shows "toggle_count g = 31" and "idval g = 0xAAAAAAAA" and "length (seen (target g)) = 40"
    and "\<not> out_bit (ports g) 0" and "\<not> clk_was (target g)"
    and "console g = [Trying3 0 3 4]" and "vflag g = 1" and "retval g = 0"
proof -
  let ?W = "probe_world 0 3 one_echo"
  let ?s1 = "print (Trying3 0 3 4) ((power_on probe_idle)\<lparr>vflag := 1\<rparr>)"
  let ?a = "id_trial_init ?W 0 3 ?s1"
  have u: "usable 0" "usable 3" "usable 4" by (simp_all add: usable_def PINS_def)
  have d: "(0 :: pin) \<noteq> 3" by simp
  note i = id_trial_init_state [OF u(1,2), of ?W ?s1]
  have nc: "\<not> clk_was (target ?a)"
    unfolding probe_world_wired by (rule id_trial_init_wired [OF u(1,2)])
  have k: "seen (target ?a) = []"
    by (simp add: id_trial_init_def set_all_pins_to_inputs_def set_pin_to_output_def
          output_P1_def upd_defs Let_def probe_react_def out_bit_def power_on_def probe_idle_def
          BIT_defs print_def)
  have n: "length ([] :: bool list) + 9 = 9" "length ([] :: bool list) + 41 = 41" by simp_all
  note p = shift_loop_wired [OF u d i(1) nc i(3), of "\<lambda>p. one_echo", folded probe_world_wired,
      folded g_def, unfolded k n i(4,5) echo_gate_toggles echo_gate_word]
  show "toggle_count g = 31" using p(2) by simp
  show "idval g = 0xAAAAAAAA" using p(3) by simp
  show "length (seen (target g)) = 40" unfolding p(1) by simp
  show "\<not> out_bit (ports g) 0" unfolding p(4) using i(1) by (simp add: out_bit_with_out)
  show "\<not> clk_was (target g)" by (rule p(5))
  show "console g = [Trying3 0 3 4]" unfolding g_def by (simp add: power_on_def)
  show "vflag g = 1" unfolding g_def by (simp add: power_on_def)
  show "retval g = 0" unfolding g_def by (simp add: power_on_def)
qed

lemma quiet_tail:
  assumes "usable c" "usable q" "c \<noteq> d" "\<forall>i \<in> set xs. usable i \<and> c \<noteq> i"
    "\<not> out_bit (ports s) c" "\<not> clk_was (target s)" "584 \<le> length (seen (target s))"
    "vflag s \<noteq> 0"
  shows "console (fold (id_tdi_trial (probe_world c d one_echo) c m q) xs s)
           = console s @ map (Trying4 c m q) xs
       \<and> length (seen (target (fold (id_tdi_trial (probe_world c d one_echo) c m q) xs s)))
           = length (seen (target s)) + 1024 * length xs
       \<and> retval (fold (id_tdi_trial (probe_world c d one_echo) c m q) xs s) = retval s"
  using assms(4-8)
proof (induction xs arbitrary: s)
  case Nil
  then show ?case by simp
next
  case (Cons x xs)
  let ?t = "id_tdi_trial (probe_world c d one_echo) c m q x s"
  have x: "usable x" "c \<noteq> x" using Cons.prems(1) by simp_all
  have z: "0 = toggles False (map one_echo [Suc (length (seen (target s)) + 512)..<
                Suc (length (seen (target s)) + 512 + 512)])"
    using echo_later_toggles [OF Cons.prems(4)] by simp
  note p = id_tdi_trial_probe [OF assms(1,2) x assms(3) Cons.prems(2,3) z, of m]
  have "\<forall>i \<in> set xs. usable i \<and> c \<noteq> i" using Cons.prems(1) by simp
  moreover have "584 \<le> length (seen (target ?t))" unfolding p(3) using Cons.prems(4) by simp
  moreover have "vflag ?t \<noteq> 0" unfolding p(6) by (rule Cons.prems(5))
  ultimately have ih: "console (fold (id_tdi_trial (probe_world c d one_echo) c m q) xs ?t)
           = console ?t @ map (Trying4 c m q) xs
       \<and> length (seen (target (fold (id_tdi_trial (probe_world c d one_echo) c m q) xs ?t)))
           = length (seen (target ?t)) + 1024 * length xs
       \<and> retval (fold (id_tdi_trial (probe_world c d one_echo) c m q) xs ?t) = retval ?t"
    using p(1,2) by (intro Cons.IH)
  show ?case
    using ih Cons.prems(5) unfolding p(3,4,5) by simp
qed

lemma echo_candidates: "tdi_candidates 0 3 4 = [5, 6, 7, 8, 9, 10, 11, 12, 13, 14, 15]"
  by (simp add: tdi_candidates_def PINS_def upt_rec)

lemma id_tdi_trial_vflag: "vflag (id_tdi_trial w tck tms tdo tdi s) = vflag s"
  by (simp add: id_tdi_trial_def Let_def)

lemma id_tdi_trial_console:
  "\<exists>rest. console (id_tdi_trial w tck tms tdo tdi s)
            = console s @ (if vflag s \<noteq> 0 then [Trying4 tck tms tdo tdi] else []) @ rest
        \<and> (\<forall>l \<in> set rest. \<not> is_trying3 l \<and> \<not> is_trying4 l)"
  by (rule exI [of _ "if tc (id_tdi_measure w tck tms tdo tdi s) > 29
                         \<and> tc (id_tdi_measure w tck tms tdo tdi s) < 35
                      then [FoundJtagId tck tms tdo tdi (idval (id_tdi_measure w tck tms tdo tdi s))]
                      else []"])
     (simp add: id_tdi_trial_def Let_def)

lemma tdi_trials_console:
  "\<exists>rest. console (fold (id_tdi_trial w tck tms tdo) xs s) = console s @ rest
        \<and> (vflag s \<noteq> 0 \<longrightarrow> filter is_trying4 rest = map (Trying4 tck tms tdo) xs)
        \<and> (\<forall>l \<in> set rest. \<not> is_trying3 l)"
proof (induction xs arbitrary: s)
  case Nil
  then show ?case by simp
next
  case (Cons x xs)
  let ?t = "id_tdi_trial w tck tms tdo x s"
  obtain r1 where r1: "console ?t
        = console s @ (if vflag s \<noteq> 0 then [Trying4 tck tms tdo x] else []) @ r1"
      "\<forall>l \<in> set r1. \<not> is_trying3 l \<and> \<not> is_trying4 l"
    using id_tdi_trial_console [of w tck tms tdo x s] by blast
  obtain r2 where r2: "console (fold (id_tdi_trial w tck tms tdo) xs ?t) = console ?t @ r2"
      "vflag ?t \<noteq> 0 \<longrightarrow> filter is_trying4 r2 = map (Trying4 tck tms tdo) xs"
      "\<forall>l \<in> set r2. \<not> is_trying3 l"
    using Cons.IH [of ?t] by blast
  have f: "filter is_trying4 r1 = []" using r1(2) by (simp add: filter_empty_conv)
  show ?case
    by (rule exI [of _ "(if vflag s \<noteq> 0 then [Trying4 tck tms tdo x] else []) @ r1 @ r2"])
       (use r1 r2 f in \<open>auto simp add: id_tdi_trial_vflag\<close>)
qed

lemma id_trial_vflag: "vflag (id_trial w tck tms tdo s) = vflag s"
proof -
  have "vflag (fold (id_tdi_trial w tck tms tdo) xs t) = vflag t" for xs t
    by (rule fold_keeps) (rule id_tdi_trial_vflag)
  then show ?thesis by (simp add: id_trial_def tdi_loop_fold Let_def)
qed

lemma id_trial_console:
  "\<exists>rest. console (id_trial w tck tms tdo s)
            = console s @ (if vflag s \<noteq> 0 then [Trying3 tck tms tdo] else []) @ rest
        \<and> (\<forall>l \<in> set rest. \<not> is_trying3 l)"
proof -
  let ?g = "id_shift_loop w tck tms tdo (id_trial_init w tck tms
      (if vflag s \<noteq> 0 then print (Trying3 tck tms tdo) s else s))"
  have c: "console ?g = console s @ (if vflag s \<noteq> 0 then [Trying3 tck tms tdo] else [])"
    by simp
  obtain r where r: "console (fold (id_tdi_trial w tck tms tdo) (tdi_candidates tck tms tdo) ?g)
        = console ?g @ r" "\<forall>l \<in> set r. \<not> is_trying3 l"
    using tdi_trials_console [of w tck tms tdo "tdi_candidates tck tms tdo" ?g] by blast
  show ?thesis
  proof (cases "toggle_count ?g > 7")
    case True
    then have "id_trial w tck tms tdo s
        = fold (id_tdi_trial w tck tms tdo) (tdi_candidates tck tms tdo) ?g"
      by (simp add: id_trial_def tdi_loop_fold Let_def)
    then show ?thesis
      using r unfolding c by (intro exI [of _ r]) simp
  next
    case False
    then have "id_trial w tck tms tdo s = ?g"
      by (simp add: id_trial_def Let_def)
    then show ?thesis
      unfolding c by (intro exI [of _ "[]"]) simp
  qed
qed

lemma triples_console:
  "\<exists>rest. console (fold (\<lambda>(tck, tms, tdo). id_trial w tck tms tdo) xs s) = console s @ rest
        \<and> (vflag s \<noteq> 0
             \<longrightarrow> filter is_trying3 rest = map (\<lambda>(tck, tms, tdo). Trying3 tck tms tdo) xs)"
proof (induction xs arbitrary: s)
  case Nil
  then show ?case by simp
next
  case (Cons x xs)
  obtain tck tms tdo where x: "x = (tck, tms, tdo)" by (cases x)
  let ?t = "id_trial w tck tms tdo s"
  obtain r1 where r1: "console ?t
        = console s @ (if vflag s \<noteq> 0 then [Trying3 tck tms tdo] else []) @ r1"
      "\<forall>l \<in> set r1. \<not> is_trying3 l"
    using id_trial_console [of w tck tms tdo s] by blast
  obtain r2 where r2: "console (fold (\<lambda>(tck, tms, tdo). id_trial w tck tms tdo) xs ?t)
        = console ?t @ r2"
      "vflag ?t \<noteq> 0
        \<longrightarrow> filter is_trying3 r2 = map (\<lambda>(tck, tms, tdo). Trying3 tck tms tdo) xs"
    using Cons.IH [of ?t] by blast
  have f: "filter is_trying3 r1 = []" using r1(2) by (simp add: filter_empty_conv)
  show ?case
    unfolding x
    by (rule exI [of _ "(if vflag s \<noteq> 0 then [Trying3 tck tms tdo] else []) @ r1 @ r2"])
       (use r1 r2 f in \<open>auto simp add: id_trial_vflag\<close>)
qed




end
